theory Spec2Isabelle
  imports Complex_Main "HOL-Library.AList" "HOL-Library.Sublist"
begin

section \<open>Column names: \<open>normalize_name\<close>, \<open>find_column\<close>, \<open>expect_vibration_range\<close>\<close>

text \<open>
  Python strings are modelled as \<open>string\<close>, whose characters are bytes: the model
  covers column names in ASCII. On them \<open>str.lower\<close> maps the letters A to Z to a to z
  and leaves every other character alone. Names with other characters are outside the
  model; among them are the two code points that \<open>str.lower\<close> turns into ASCII letters,
  U+212A (to k) and U+0130 (to i and a combining dot).
\<close>

definition lower_char :: "char \<Rightarrow> char" where
  "lower_char c =
     (case map_of (zip ''ABCDEFGHIJKLMNOPQRSTUVWXYZ'' ''abcdefghijklmnopqrstuvwxyz'') c of
        Some l \<Rightarrow> l
      | None \<Rightarrow> c)"

definition str_lower :: "string \<Rightarrow> string" where
  "str_lower s = map lower_char s"

definition is_alnum :: "char \<Rightarrow> bool" where
  "is_alnum c = (c \<in> set ''abcdefghijklmnopqrstuvwxyz0123456789'')"

text \<open>\<open>re.sub(r"[^a-z0-9]+", " ", s)\<close>: every maximal run of other characters becomes one space.\<close>

function collapse :: "string \<Rightarrow> string" where
  "collapse [] = []"
| "collapse (c # cs) =
     (if is_alnum c then c # collapse cs
      else CHR '' '' # collapse (dropWhile (\<lambda>d. \<not> is_alnum d) cs))"
  by pat_completeness auto
termination
  by (relation "measure length") (auto simp: length_dropWhile_le less_Suc_eq_le)

text \<open>\<open>str.strip\<close>: after \<open>collapse\<close> the space is the only whitespace character left.\<close>

definition strip :: "string \<Rightarrow> string" where
  "strip s = rev (dropWhile (\<lambda>c. c = CHR '' '') (rev (dropWhile (\<lambda>c. c = CHR '' '') s)))"

definition normalize_name :: "string \<Rightarrow> string" where
  "normalize_name v = strip (collapse (str_lower v))"

text \<open>Python's \<open>key in norm\<close> on strings: \<open>key\<close> occurs in \<open>norm\<close> as a contiguous substring.\<close>

fun starts_with :: "string \<Rightarrow> string \<Rightarrow> bool" where
  "starts_with s [] = True"
| "starts_with [] (k # ks) = False"
| "starts_with (c # cs) (k # ks) = (c = k \<and> starts_with cs ks)"

fun str_in :: "string \<Rightarrow> string \<Rightarrow> bool" where
  "str_in key [] = (key = [])"
| "str_in key (c # cs) = (starts_with (c # cs) key \<or> str_in key cs)"

text \<open>
  The dict comprehension \<open>{normalize_name(col): col for col in columns}\<close>: a Python dict
  keeps the position of the first insertion of a key and the value of the last one, which
  is what \<open>AList.update\<close> does on an association list.
\<close>

definition normalized_dict :: "string list \<Rightarrow> (string \<times> string) list" where
  "normalized_dict columns = fold (\<lambda>col d. AList.update (normalize_name col) col d) columns []"

fun exact_pass :: "(string \<times> string) list \<Rightarrow> string list \<Rightarrow> string option" where
  "exact_pass normalized [] = None"
| "exact_pass normalized (candidate # candidates) =
     (case map_of normalized (normalize_name candidate) of
        Some original \<Rightarrow> Some original
      | None \<Rightarrow> exact_pass normalized candidates)"

fun substring_pass :: "(string \<times> string) list \<Rightarrow> string list \<Rightarrow> string option" where
  "substring_pass normalized [] = None"
| "substring_pass normalized (candidate # candidates) =
     (let key = normalize_name candidate in
      case find (\<lambda>(norm', original). key \<noteq> [] \<and> str_in key norm') normalized of
        Some (norm', original) \<Rightarrow> Some original
      | None \<Rightarrow> substring_pass normalized candidates)"

definition find_column :: "string list \<Rightarrow> string list \<Rightarrow> string option" where
  "find_column columns candidates =
     (let normalized = normalized_dict columns in
      case exact_pass normalized candidates of
        Some original \<Rightarrow> Some original
      | None \<Rightarrow> substring_pass normalized candidates)"

text \<open>
  The dict of \<open>detect_standard_columns\<close>, with its four keys as fields; \<open>analyze_dataset\<close>
  reads them into \<open>depth_col\<close>, \<open>rop_col\<close>, \<open>vibration_col\<close> and \<open>time_col\<close>.
\<close>

record standard_cols =
  depth_col :: "string option"
  rop_col :: "string option"
  vibration_col :: "string option"
  time_col :: "string option"

definition detect_standard_columns :: "string list \<Rightarrow> standard_cols" where
  "detect_standard_columns columns =
     \<lparr> depth_col = find_column columns
         [''BIT_DEPTH'', ''BIT_DEPTH_M'', ''BIT MEASURED DEPTH'', ''DEPTH'', ''MD'', ''HOLE DEPTH''],
       rop_col = find_column columns
         [''ROP'', ''ROP_MH'', ''ROP_M/H'', ''RATE OF PENETRATION'', ''TIME AVERAGED ROP''],
       vibration_col = find_column columns
         [''VIBRATION_0_5'', ''VIBRATION'', ''VIBRATION_RAW'', ''LATERAL VIBRATION'', ''VIBRATION_PROXY''],
       time_col = find_column columns [''TIME'', ''TIMESTAMP'', ''DATETIME'', ''DATE TIME''] \<rparr>"

definition expect_vibration_range :: "string option \<Rightarrow> (real \<times> real) option" where
  "expect_vibration_range column_name =
     (case column_name of
        None \<Rightarrow> None
      | Some name \<Rightarrow>
          if name = [] then None
          else
            let normalized = normalize_name name in
            if str_in ''vibration 0 5'' normalized
               \<or> (str_in ''vibration'' normalized \<and> \<not> str_in ''raw'' normalized)
            then Some (0, 5)
            else None)"

section \<open>Errors and arithmetic that can raise\<close>

text \<open>
  Python integers are \<open>int\<close>. What raises in Python is a value \<open>Inl e\<close> here. Floats
  are real numbers, and there is neither \<open>nan\<close> nor \<open>inf\<close>. The arithmetic of this
  section and of \<open>update\<close> and \<open>analyze_dataset\<close> below is exact; the arithmetic of the
  code, which rounds every result to a double, is that of \<open>update_f64\<close> in the section on
  double precision.
\<close>

datatype py_error = ZeroDivisionError | ValueError | KeyError | FileNotFoundError | ReadError

definition and_then :: "py_error + 'a \<Rightarrow> ('a \<Rightarrow> py_error + 'b) \<Rightarrow> py_error + 'b" where
  "and_then m f = (case m of Inl e \<Rightarrow> Inl e | Inr x \<Rightarrow> f x)"

text \<open>The operator \<open>/\<close> raises on a zero divisor, \<open>math.sqrt\<close> on a negative argument.\<close>

definition py_div :: "real \<Rightarrow> real \<Rightarrow> py_error + real" where
  "py_div a b = (if b = 0 then Inl ZeroDivisionError else Inr (a / b))"

definition py_sqrt :: "real \<Rightarrow> py_error + real" where
  "py_sqrt x = (if x < 0 then Inl ValueError else Inr (sqrt x))"

text \<open>\<open>d[k]\<close> on a dict kept as an association list.\<close>

definition getitem :: "('k \<times> 'v) list \<Rightarrow> 'k \<Rightarrow> py_error + 'v" where
  "getitem d k = (case map_of d k of None \<Rightarrow> Inl KeyError | Some v \<Rightarrow> Inr v)"

text \<open>The dict comprehension \<open>{k: f(k) for k in keys}\<close>.\<close>

definition dict_of :: "('k \<Rightarrow> 'v) \<Rightarrow> 'k list \<Rightarrow> ('k \<times> 'v) list" where
  "dict_of f keys = fold (\<lambda>k d. AList.update k (f k) d) keys []"

section \<open>Cells, series and \<open>RunningStat\<close>\<close>

text \<open>
  A cell of a pandas frame: missing (\<open>NaN\<close>), a number, or a value that is present but
  that \<open>pd.to_numeric(..., errors="coerce")\<close> cannot read as a number. A string that
  pandas reads as a number is the cell of that number: two such strings with one value are
  one cell here, though \<open>duplicated\<close> tells them apart in a column of strings.
\<close>

datatype cell = Missing | Num real | Text string

definition to_numeric :: "cell list \<Rightarrow> real option list" where
  "to_numeric series = map (\<lambda>c. case c of Num x \<Rightarrow> Some x | _ \<Rightarrow> None) series"

fun dropna :: "real option list \<Rightarrow> real list" where
  "dropna [] = []"
| "dropna (None # xs) = dropna xs"
| "dropna (Some x # xs) = x # dropna xs"

text \<open>
  The aggregates of a series without missing entries. \<open>update\<close> calls them on a series
  that is not empty (on an empty one pandas answers \<open>NaN\<close>).
\<close>

definition series_mean :: "real list \<Rightarrow> real" where
  "series_mean vs = sum_list vs / real (length vs)"

definition series_var :: "real list \<Rightarrow> real" where
  "series_var vs = sum_list (map (\<lambda>x. (x - series_mean vs)\<^sup>2) vs) / real (length vs)"

fun series_min :: "real list \<Rightarrow> real" where
  "series_min (v # vs) = fold min vs v"

fun series_max :: "real list \<Rightarrow> real" where
  "series_max (v # vs) = fold max vs v"

record RunningStat =
  count :: int
  mean :: real
  m2 :: real
  min_value :: "real option"
  max_value :: "real option"

definition new_stat :: RunningStat where
  "new_stat = \<lparr> count = 0, mean = 0, m2 = 0, min_value = None, max_value = None \<rparr>"

definition update :: "RunningStat \<Rightarrow> cell list \<Rightarrow> py_error + RunningStat" where
  "update self series =
     (let vs = dropna (to_numeric series) in
      if vs = [] then Inr self
      else
        let chunk_count = int (length vs);
            chunk_mean = series_mean vs;
            chunk_var = series_var vs;
            chunk_m2 = chunk_var * real_of_int chunk_count
        in
        and_then
          (if count self = 0
           then Inr (self\<lparr> count := chunk_count, mean := chunk_mean, m2 := chunk_m2 \<rparr>)
           else
             let delta = chunk_mean - mean self;
                 total = count self + chunk_count
             in
             and_then (py_div (delta * real_of_int chunk_count) (real_of_int total)) (\<lambda>shift.
             and_then (py_div (delta * delta * real_of_int (count self) * real_of_int chunk_count)
                         (real_of_int total)) (\<lambda>spread.
             Inr (self\<lparr> mean := mean self + shift,
                        m2 := m2 self + chunk_m2 + spread,
                        count := total \<rparr>))))
          (\<lambda>self.
             let chunk_min = series_min vs;
                 chunk_max = series_max vs;
                 self = (if (case min_value self of None \<Rightarrow> True | Some m \<Rightarrow> chunk_min < m)
                         then self\<lparr> min_value := Some chunk_min \<rparr> else self);
                 self = (if (case max_value self of None \<Rightarrow> True | Some m \<Rightarrow> chunk_max > m)
                         then self\<lparr> max_value := Some chunk_max \<rparr> else self)
             in Inr self))"

definition std :: "RunningStat \<Rightarrow> py_error + real" where
  "std self =
     (if count self \<le> 1 then Inr 0
      else and_then (py_div (m2 self) (real_of_int (count self))) py_sqrt)"

text \<open>One accumulator fed a list of batches, one \<open>update\<close> call each.\<close>

fun update_all :: "RunningStat \<Rightarrow> cell list list \<Rightarrow> py_error + RunningStat" where
  "update_all self [] = Inr self"
| "update_all self (batch # batches) =
     (case update self batch of Inl e \<Rightarrow> Inl e | Inr self' \<Rightarrow> update_all self' batches)"

section \<open>Double precision\<close>

text \<open>
  A double is a real number with a significand of 53 bits. \<open>fl\<close> rounds a real number
  to the nearest double, a tie to the double with the even significand, as IEEE 754
  does by default; \<open>rne\<close> is that rounding on the integers. The exponent is not bounded
  here: a result beyond the largest double is not \<open>inf\<close>, and there are no subnormal
  numbers.
\<close>

definition rne :: "real \<Rightarrow> int" where
  "rne y =
     (let f = \<lfloor>y\<rfloor>; r = y - of_int f in
      if r < 1 / 2 then f
      else if r > 1 / 2 then f + 1
      else if even f then f else f + 1)"

definition fl :: "real \<Rightarrow> real" where
  "fl x =
     (if x = 0 then 0
      else
        let q = 2 powr (of_int \<lfloor>log 2 \<bar>x\<bar>\<rfloor> - 52)
        in of_int (rne (x / q)) * q)"

text \<open>The operators of Python on floats round their exact result.\<close>

definition py_div_f64 :: "real \<Rightarrow> real \<Rightarrow> py_error + real" where
  "py_div_f64 a b = (if b = 0 then Inl ZeroDivisionError else Inr (fl (a / b)))"

definition py_sqrt_f64 :: "real \<Rightarrow> py_error + real" where
  "py_sqrt_f64 x = (if x < 0 then Inl ValueError else Inr (fl (sqrt x)))"

text \<open>
  The aggregates of pandas on a series of doubles without missing entries. The sum adds the
  entries from left to right, which is the order of numpy for a series of fewer than eight
  entries (it adds a longer one in blocks). The mean is the sum over the count. The
  variance with \<open>ddof=0\<close> takes that mean first and then the sum of the squared
  differences over the count.
\<close>

definition np_sum :: "real list \<Rightarrow> real" where
  "np_sum vs = foldl (\<lambda>acc v. fl (acc + v)) 0 vs"

definition nanmean :: "real list \<Rightarrow> real" where
  "nanmean vs = fl (np_sum vs / real (length vs))"

definition nanvar :: "real list \<Rightarrow> real" where
  "nanvar vs =
     (let avg = fl (np_sum vs / real (length vs));
          sqr = map (\<lambda>v. fl (fl (avg - v) * fl (avg - v))) vs
      in fl (np_sum sqr / real (length vs)))"

text \<open>
  \<open>update\<close> and \<open>std\<close> as the code computes them: every operation on floats rounds. The
  cells are taken to hold doubles.
\<close>

definition update_f64 :: "RunningStat \<Rightarrow> cell list \<Rightarrow> py_error + RunningStat" where
  "update_f64 self series =
     (let vs = dropna (to_numeric series) in
      if vs = [] then Inr self
      else
        let chunk_count = int (length vs);
            chunk_mean = nanmean vs;
            chunk_var = nanvar vs;
            chunk_m2 = fl (chunk_var * real_of_int chunk_count)
        in
        and_then
          (if count self = 0
           then Inr (self\<lparr> count := chunk_count, mean := chunk_mean, m2 := chunk_m2 \<rparr>)
           else
             let delta = fl (chunk_mean - mean self);
                 total = count self + chunk_count
             in
             and_then (py_div_f64 (fl (delta * real_of_int chunk_count)) (real_of_int total)) (\<lambda>shift.
             and_then (py_div_f64
                         (fl (fl (fl (delta * delta) * real_of_int (count self))
                              * real_of_int chunk_count))
                         (real_of_int total)) (\<lambda>spread.
             Inr (self\<lparr> mean := fl (mean self + shift),
                        m2 := fl (fl (m2 self + chunk_m2) + spread),
                        count := total \<rparr>))))
          (\<lambda>self.
             let chunk_min = series_min vs;
                 chunk_max = series_max vs;
                 self = (if (case min_value self of None \<Rightarrow> True | Some m \<Rightarrow> chunk_min < m)
                         then self\<lparr> min_value := Some chunk_min \<rparr> else self);
                 self = (if (case max_value self of None \<Rightarrow> True | Some m \<Rightarrow> chunk_max > m)
                         then self\<lparr> max_value := Some chunk_max \<rparr> else self)
             in Inr self))"

definition std_f64 :: "RunningStat \<Rightarrow> py_error + real" where
  "std_f64 self =
     (if count self \<le> 1 then Inr 0
      else and_then (py_div_f64 (m2 self) (real_of_int (count self))) py_sqrt_f64)"

fun update_all_f64 :: "RunningStat \<Rightarrow> cell list list \<Rightarrow> py_error + RunningStat" where
  "update_all_f64 self [] = Inr self"
| "update_all_f64 self (batch # batches) =
     (case update_f64 self batch of Inl e \<Rightarrow> Inl e | Inr self' \<Rightarrow> update_all_f64 self' batches)"

section \<open>Frames\<close>

text \<open>
  A row gives a cell for every column name; only the names of the header are ever read.
  A chunk (a pandas frame) is the list of its rows.
\<close>

type_synonym row = "string \<Rightarrow> cell"
type_synonym frame = "row list"

text \<open>\<open>chunk[col]\<close>, \<open>series.isna().sum()\<close>, \<open>chunk.isna().all(axis=1).sum()\<close>.\<close>

definition column_of :: "frame \<Rightarrow> string \<Rightarrow> cell list" where
  "column_of chunk col = map (\<lambda>r. r col) chunk"

definition isna_sum :: "cell list \<Rightarrow> int" where
  "isna_sum series = int (length (filter (\<lambda>c. c = Missing) series))"

definition all_na_rows :: "string list \<Rightarrow> frame \<Rightarrow> int" where
  "all_na_rows columns chunk =
     int (length (filter (\<lambda>r. list_all (\<lambda>col. r col = Missing) columns) chunk))"

text \<open>\<open>(series < 0).sum()\<close> and its like: a comparison with \<open>NaN\<close> is false.\<close>

definition count_where :: "(real \<Rightarrow> bool) \<Rightarrow> real option list \<Rightarrow> int" where
  "count_where p series = int (length (filter p (dropna series)))"

text \<open>
  \<open>DataFrame.duplicated()\<close>: a row is marked when an earlier row of the frame has the
  same cells in every column (two missing cells count as the same).
\<close>

fun duplicated_from :: "'a list \<Rightarrow> 'a list \<Rightarrow> bool list" where
  "duplicated_from seen [] = []"
| "duplicated_from seen (r # rs) = (r \<in> set seen) # duplicated_from (r # seen) rs"

definition duplicated :: "string list \<Rightarrow> frame \<Rightarrow> bool list" where
  "duplicated columns df = duplicated_from [] (map (\<lambda>r. map r columns) df)"

section \<open>\<open>analyze_dataset\<close>\<close>


definition DUPLICATE_SAMPLE_ROWS :: int where
  "DUPLICATE_SAMPLE_ROWS = 200000"

definition LARGE_FILE_BYTES :: int where
  "LARGE_FILE_BYTES = 500 * 1024 * 1024"


text \<open>The lines that \<open>log\<close> prints, without their timestamp.\<close>

datatype log_msg =
    Starting
  | Config int int int
  | DatasetNotFound string
  | PrimaryMissing string
  | NoDatasets
  | Analyzing string string
  | LargeFile int
  | Processed int string
  | Wrote string
  | ErrorLine py_error

text \<open>The local variables of the chunk loop.\<close>

record scan =
  row_count :: int
  fully_empty_rows :: int
  depth_negative :: int
  vibration_out_of_range :: int
  missing_counts :: "(string \<times> int) list"
  numeric_stats :: "(string \<times> RunningStat) list"
  sample_frames :: "frame list"
  sample_remaining :: int
  progress :: "log_msg list"

text \<open>The truth value of an \<open>Optional[str]\<close>: neither \<open>None\<close> nor the empty string.\<close>

definition truthy :: "string option \<Rightarrow> bool" where
  "truthy col = (case col of None \<Rightarrow> False | Some c \<Rightarrow> c \<noteq> [])"

text \<open>The loop \<open>for col in columns\<close> over one chunk.\<close>

fun update_columns :: "frame \<Rightarrow> string list \<Rightarrow> scan \<Rightarrow> py_error + scan" where
  "update_columns chunk [] st = Inr st"
| "update_columns chunk (col # rest) st =
     (case getitem (missing_counts st) col of
        Inl e \<Rightarrow> Inl e
      | Inr seen \<Rightarrow>
          let st1 = st\<lparr> missing_counts :=
                      AList.update col (seen + isna_sum (column_of chunk col)) (missing_counts st) \<rparr>
          in
          (case getitem (numeric_stats st1) col of
             Inl e \<Rightarrow> Inl e
           | Inr stat \<Rightarrow>
               (case update stat (column_of chunk col) of
                  Inl e \<Rightarrow> Inl e
                | Inr stat' \<Rightarrow>
                    update_columns chunk rest
                      (st1\<lparr> numeric_stats := AList.update col stat' (numeric_stats st1) \<rparr>))))"

text \<open>
  The blocks of the loop body that follow the column loop, in their order: the count of
  negative depths, the count of vibration values out of range, the duplicate sample, and
  the progress line of every tenth chunk.
\<close>

definition count_negative_depth :: "string list \<Rightarrow> standard_cols \<Rightarrow> frame \<Rightarrow> scan \<Rightarrow> scan" where
  "count_negative_depth columns standard chunk st =
     (case depth_col standard of
        Some c \<Rightarrow>
          if c \<noteq> [] \<and> c \<in> set columns
          then st\<lparr> depth_negative := depth_negative st
                   + count_where (\<lambda>x. x < 0) (to_numeric (column_of chunk c)) \<rparr>
          else st
      | None \<Rightarrow> st)"

definition count_out_of_range ::
  "string list \<Rightarrow> standard_cols \<Rightarrow> (real \<times> real) option \<Rightarrow> frame \<Rightarrow> scan \<Rightarrow> scan" where
  "count_out_of_range columns standard vibration_range chunk st =
     (case vibration_col standard of
        Some c \<Rightarrow>
          (case vibration_range of
             Some (lower, upper) \<Rightarrow>
               if c \<noteq> [] \<and> c \<in> set columns
               then st\<lparr> vibration_out_of_range := vibration_out_of_range st
                        + count_where (\<lambda>x. x < lower \<or> x > upper)
                            (to_numeric (column_of chunk c)) \<rparr>
               else st
           | None \<Rightarrow> st)
      | None \<Rightarrow> st)"

definition feed_sample :: "frame \<Rightarrow> scan \<Rightarrow> scan" where
  "feed_sample chunk st =
     (if sample_remaining st > 0
      then
        let n = min (sample_remaining st) (int (length chunk))
        in st\<lparr> sample_frames := sample_frames st @ [take (nat n) chunk],
               sample_remaining := sample_remaining st - n \<rparr>
      else st)"

definition heartbeat :: "nat \<Rightarrow> string \<Rightarrow> scan \<Rightarrow> scan" where
  "heartbeat index name st =
     (if (int index + 1) mod 10 = 0
      then st\<lparr> progress := progress st @ [Processed (row_count st) name] \<rparr>
      else st)"

text \<open>The body of the chunk loop; \<open>ic\<close> is the pair that \<open>enumerate\<close> yields.\<close>

definition process_chunk ::
  "string list \<Rightarrow> standard_cols \<Rightarrow> (real \<times> real) option \<Rightarrow> string \<Rightarrow> nat \<times> frame \<Rightarrow> scan
     \<Rightarrow> py_error + scan" where
  "process_chunk columns standard vibration_range name ic st =
     (let index = fst ic;
          chunk = snd ic;
          st = st\<lparr> row_count := row_count st + int (length chunk) \<rparr>;
          st = st\<lparr> fully_empty_rows := fully_empty_rows st + all_na_rows columns chunk \<rparr>
      in
      and_then (update_columns chunk columns st) (\<lambda>st.
        Inr (heartbeat index name
              (feed_sample chunk
                (count_out_of_range columns standard vibration_range chunk
                  (count_negative_depth columns standard chunk st))))))"

fun scan_chunks ::
  "string list \<Rightarrow> standard_cols \<Rightarrow> (real \<times> real) option \<Rightarrow> string \<Rightarrow> (nat \<times> frame) list \<Rightarrow> scan
     \<Rightarrow> py_error + scan" where
  "scan_chunks columns standard vibration_range name [] st = Inr st"
| "scan_chunks columns standard vibration_range name (ic # rest) st =
     (case process_chunk columns standard vibration_range name ic st of
        Inl e \<Rightarrow> Inl e
      | Inr st' \<Rightarrow> scan_chunks columns standard vibration_range name rest st')"

text \<open>The state before the first chunk, and the whole loop over the chunks of a file.\<close>

definition initial_scan :: "string list \<Rightarrow> scan" where
  "initial_scan columns =
     \<lparr> row_count = 0, fully_empty_rows = 0, depth_negative = 0, vibration_out_of_range = 0,
       missing_counts = dict_of (\<lambda>col. 0) columns,
       numeric_stats = dict_of (\<lambda>col. new_stat) columns,
       sample_frames = [], sample_remaining = DUPLICATE_SAMPLE_ROWS, progress = [] \<rparr>"

definition scan_frames :: "string \<Rightarrow> string list \<Rightarrow> frame list \<Rightarrow> py_error + scan" where
  "scan_frames name columns chunks =
     (let standard = detect_standard_columns columns;
          vibration_range = expect_vibration_range (vibration_col standard)
      in scan_chunks columns standard vibration_range name (List.enumerate 0 chunks)
           (initial_scan columns))"

subsection \<open>After the loop\<close>

record missing_entry =
  missing :: int
  missing_rate :: real
  non_null :: int
  non_null_rate :: real

definition missingness_entry :: "int \<Rightarrow> int \<Rightarrow> py_error + missing_entry" where
  "missingness_entry n_rows seen =
     (let nn = n_rows - seen in
      and_then (if n_rows \<noteq> 0 then py_div (real_of_int seen) (real_of_int n_rows) else Inr 0) (\<lambda>rate.
      and_then (if n_rows \<noteq> 0 then py_div (real_of_int nn) (real_of_int n_rows) else Inr 0) (\<lambda>nn_rate.
      Inr \<lparr> missing = seen, missing_rate = rate, non_null = nn, non_null_rate = nn_rate \<rparr>)))"

fun build_missingness ::
  "int \<Rightarrow> (string \<times> int) list \<Rightarrow> string list \<Rightarrow> (string \<times> missing_entry) list
     \<Rightarrow> py_error + (string \<times> missing_entry) list" where
  "build_missingness n_rows counts [] acc = Inr acc"
| "build_missingness n_rows counts (col # rest) acc =
     (case getitem counts col of
        Inl e \<Rightarrow> Inl e
      | Inr seen \<Rightarrow>
          (case missingness_entry n_rows seen of
             Inl e \<Rightarrow> Inl e
           | Inr entry \<Rightarrow> build_missingness n_rows counts rest (AList.update col entry acc)))"

record summary =
  s_count :: int
  s_min :: "real option"
  s_max :: "real option"
  s_mean :: real
  s_std :: real

fun build_numeric_summary ::
  "(string \<times> RunningStat) list \<Rightarrow> (string \<times> summary) list \<Rightarrow> py_error + (string \<times> summary) list" where
  "build_numeric_summary [] acc = Inr acc"
| "build_numeric_summary ((col, stat) # items) acc =
     (if count stat = 0 then build_numeric_summary items acc
      else
        (case std stat of
           Inl e \<Rightarrow> Inl e
         | Inr sd \<Rightarrow>
             build_numeric_summary items
               (AList.update col
                  \<lparr> s_count = count stat, s_min = min_value stat, s_max = max_value stat,
                    s_mean = mean stat, s_std = sd \<rparr> acc)))"

record duplicate_sample =
  sample_method :: string
  sample_rows :: int
  duplicate_rows :: int
  duplicate_rate :: real

definition summarize_duplicates :: "string list \<Rightarrow> frame list \<Rightarrow> py_error + duplicate_sample" where
  "summarize_duplicates columns frames_kept =
     (if frames_kept = []
      then Inr \<lparr> sample_method = ''sampled'', sample_rows = 0, duplicate_rows = 0,
                 duplicate_rate = 0 \<rparr>
      else
        let sample_df = concat frames_kept;
            dups = int (length (filter (\<lambda>b. b) (duplicated columns sample_df)));
            len = int (length sample_df)
        in
        and_then (if len \<noteq> 0 then py_div (real_of_int dups) (real_of_int len) else Inr 0) (\<lambda>rate.
        Inr \<lparr> sample_method = ''first_rows'', sample_rows = len, duplicate_rows = dups,
              duplicate_rate = rate \<rparr>))"

text \<open>\<open>numeric_summary.get(col, {}) if col else {}\<close>; the empty dict is \<open>None\<close>.\<close>

definition stats_for :: "(string \<times> summary) list \<Rightarrow> string option \<Rightarrow> summary option" where
  "stats_for numeric_summary col =
     (case col of None \<Rightarrow> None | Some c \<Rightarrow> if c = [] then None else map_of numeric_summary c)"

text \<open>\<open>missingness.get(col, {}).get("non_null_rate", 0.0) if col else 0.0\<close>.\<close>

definition rate_for :: "(string \<times> missing_entry) list \<Rightarrow> string option \<Rightarrow> real" where
  "rate_for missingness col =
     (case col of
        None \<Rightarrow> 0
      | Some c \<Rightarrow>
          if c = [] then 0
          else (case map_of missingness c of None \<Rightarrow> 0 | Some e \<Rightarrow> non_null_rate e))"

definition unit_flags_of :: "int \<Rightarrow> summary option \<Rightarrow> int \<Rightarrow> string list" where
  "unit_flags_of negatives rop_stats out_of_range =
     (if negatives > 0 then [''Negative depth values detected''] else [])
     @ (case rop_stats of
          None \<Rightarrow> []
        | Some st \<Rightarrow>
            (if (case s_max st of None \<Rightarrow> False | Some m \<Rightarrow> m \<noteq> 0 \<and> m > 300)
             then [''ROP max exceeds 300 m/h (unit check)''] else [])
            @ (if s_mean st < 0.01
               then [''ROP mean is extremely low (possible unit mismatch)''] else []))
     @ (if out_of_range > 0 then [''Vibration values outside expected 0-5 range''] else [])"

text \<open>
  The scoring rules, each on the pair of \<open>fit_score\<close> and \<open>score_notes\<close>: one
  definition for each \<open>if\<close> statement of the source. \<open>score_rules\<close> applies them in
  the order of the source, starting from 0 and no notes; the clamp comes afterwards, in
  \<open>finish\<close>.
\<close>

definition credit :: "int \<Rightarrow> string \<Rightarrow> int \<times> string list \<Rightarrow> int \<times> string list" where
  "credit points note acc = (fst acc + points, snd acc @ [note])"

definition depth_rule :: "string option \<Rightarrow> real \<Rightarrow> int \<times> string list \<Rightarrow> int \<times> string list" where
  "depth_rule dcol depth_rate acc =
     (if truthy dcol \<and> depth_rate > 0.9 then credit 30 ''Depth coverage >90% (+30)'' acc
      else if truthy dcol \<and> depth_rate > 0.7 then credit 15 ''Depth coverage >70% (+15)'' acc
      else acc)"

definition rop_rule :: "string option \<Rightarrow> real \<Rightarrow> int \<times> string list \<Rightarrow> int \<times> string list" where
  "rop_rule rcol rop_rate acc =
     (if truthy rcol \<and> rop_rate > 0.7 then credit 20 ''ROP coverage >70% (+20)'' acc
      else if truthy rcol \<and> rop_rate > 0.4 then credit 10 ''ROP coverage >40% (+10)'' acc
      else acc)"

definition vibration_rule :: "string option \<Rightarrow> real \<Rightarrow> int \<times> string list \<Rightarrow> int \<times> string list" where
  "vibration_rule vcol vib_rate acc =
     (if truthy vcol \<and> vib_rate > 0.7 then credit 20 ''Vibration coverage >70% (+20)'' acc
      else if truthy vcol \<and> vib_rate > 0.4 then credit 10 ''Vibration coverage >40% (+10)'' acc
      else acc)"

definition time_rule :: "string option \<Rightarrow> real \<Rightarrow> int \<times> string list \<Rightarrow> int \<times> string list" where
  "time_rule tcol time_rate acc =
     (if truthy tcol \<and> time_rate > 0.5 then credit 10 ''TIME coverage >50% (+10)'' acc
      else acc)"

definition empty_rows_rule :: "real \<Rightarrow> int \<times> string list \<Rightarrow> int \<times> string list" where
  "empty_rows_rule fully_empty_pct acc =
     (if fully_empty_pct > 0.1 then credit (- 10) ''Fully empty rows >10% (-10)'' acc
      else acc)"

definition negative_depth_rule :: "int \<Rightarrow> int \<times> string list \<Rightarrow> int \<times> string list" where
  "negative_depth_rule negatives acc =
     (if negatives > 0 then credit (- 10) ''Negative depth values (-10)'' acc
      else acc)"

definition score_rules ::
  "string option \<Rightarrow> real \<Rightarrow> string option \<Rightarrow> real \<Rightarrow> string option \<Rightarrow> real \<Rightarrow> string option \<Rightarrow> real
     \<Rightarrow> real \<Rightarrow> int \<Rightarrow> int \<times> string list" where
  "score_rules dcol depth_rate rcol rop_rate vcol vib_rate tcol time_rate fully_empty_pct negatives =
     negative_depth_rule negatives
       (empty_rows_rule fully_empty_pct
         (time_rule tcol time_rate
           (vibration_rule vcol vib_rate
             (rop_rule rcol rop_rate
               (depth_rule dcol depth_rate (0, []))))))"

text \<open>
  The dict that \<open>analyze_dataset\<close> returns, and the four dicts nested in it. The fields
  bear the keys of the dict, but for \<open>header_columns\<close> (key "columns"),
  \<open>numeric_summary\<close> (key "numeric_stats"), \<open>fully_empty_count\<close> (key
  "fully_empty_rows") and \<open>duplicate_info\<close> (key "duplicate_sample"), whose keys name
  other things here; the fields of the nested dicts carry the name of their dict in front.
\<close>

record depth_info =
  depth_column :: "string option"
  depth_min :: "real option"
  depth_max :: "real option"
  negative_count :: int

record rop_info =
  rop_column :: "string option"
  rop_min :: "real option"
  rop_max :: "real option"
  rop_mean :: "real option"
  rop_std :: "real option"

record vibration_info =
  vibration_column :: "string option"
  vibration_min :: "real option"
  vibration_max :: "real option"
  vibration_mean :: "real option"
  vibration_std :: "real option"
  expected_range :: "(real \<times> real) option"
  out_of_range_count :: int

record time_info =
  time_column :: "string option"
  time_non_null_rate :: real

record health =
  path :: string
  size_bytes :: int
  rows :: int
  cols :: int
  header_columns :: "string list"
  missingness :: "(string \<times> missing_entry) list"
  numeric_summary :: "(string \<times> summary) list"
  fully_empty_count :: int
  fully_empty_row_pct :: real
  duplicate_info :: duplicate_sample
  standard_columns :: standard_cols
  depth :: depth_info
  rop :: rop_info
  vibration :: vibration_info
  time :: time_info
  unit_flags :: "string list"
  fit_score :: int
  fit_score_notes :: "string list"

text \<open>
  Everything \<open>analyze_dataset\<close> does after the chunk loop. The path is reported relative
  to the repository root, where the script looks for its datasets.
\<close>

definition finish :: "string \<Rightarrow> int \<Rightarrow> string list \<Rightarrow> scan \<Rightarrow> py_error + health" where
  "finish name file_size columns st =
     (let standard = detect_standard_columns columns;
          vibration_range = expect_vibration_range (vibration_col standard)
      in
      and_then (build_missingness (row_count st) (missing_counts st) columns []) (\<lambda>missingness'.
      and_then (build_numeric_summary (numeric_stats st) []) (\<lambda>numeric_summary'.
      and_then (summarize_duplicates columns (sample_frames st)) (\<lambda>duplicate_sample'.
        let dcol = depth_col standard;
            rcol = rop_col standard;
            vcol = vibration_col standard;
            tcol = time_col standard;
            depth_stats = stats_for numeric_summary' dcol;
            rop_stats = stats_for numeric_summary' rcol;
            vibration_stats = stats_for numeric_summary' vcol;
            flags = unit_flags_of (depth_negative st) rop_stats (vibration_out_of_range st)
        in
        and_then (if row_count st \<noteq> 0
                  then py_div (real_of_int (fully_empty_rows st)) (real_of_int (row_count st))
                  else Inr 0) (\<lambda>fully_empty_pct.
          let depth_rate = rate_for missingness' dcol;
              rop_rate = rate_for missingness' rcol;
              vib_rate = rate_for missingness' vcol;
              time_rate = rate_for missingness' tcol;
              scored = score_rules dcol depth_rate rcol rop_rate vcol vib_rate tcol time_rate
                         fully_empty_pct (depth_negative st)
          in
          Inr \<lparr> path = ''data/volve_logs/'' @ name,
                size_bytes = file_size,
                rows = row_count st,
                cols = int (length columns),
                header_columns = columns,
                missingness = missingness',
                numeric_summary = numeric_summary',
                fully_empty_count = fully_empty_rows st,
                fully_empty_row_pct = fully_empty_pct,
                duplicate_info = duplicate_sample',
                standard_columns = standard,
                depth = \<lparr> depth_column = dcol,
                          depth_min = Option.bind depth_stats s_min,
                          depth_max = Option.bind depth_stats s_max,
                          negative_count = depth_negative st \<rparr>,
                rop = \<lparr> rop_column = rcol,
                        rop_min = Option.bind rop_stats s_min,
                        rop_max = Option.bind rop_stats s_max,
                        rop_mean = map_option s_mean rop_stats,
                        rop_std = map_option s_std rop_stats \<rparr>,
                vibration = \<lparr> vibration_column = vcol,
                              vibration_min = Option.bind vibration_stats s_min,
                              vibration_max = Option.bind vibration_stats s_max,
                              vibration_mean = map_option s_mean vibration_stats,
                              vibration_std = map_option s_std vibration_stats,
                              expected_range = vibration_range,
                              out_of_range_count = vibration_out_of_range st \<rparr>,
                time = \<lparr> time_column = tcol, time_non_null_rate = time_rate \<rparr>,
                unit_flags = flags,
                fit_score = max 0 (min 100 (fst scored)),
                fit_score_notes = snd scored \<rparr>)))))"

text \<open>
  What a path of the file system holds: a size, and the table pandas reads from it, if it
  can open the file and read its header.
\<close>

record csv_data =
  header :: "string list"
  frames :: "frame list"

record file_entry =
  st_size :: int
  content :: "csv_data option"

type_synonym filesystem = "string \<Rightarrow> file_entry option"

text \<open>
  \<open>analyze_dataset\<close> on the dataset of a given file name under \<open>data/volve_logs\<close>: the
  lines it logs, and the record it returns or the exception it raises.
\<close>

definition analyze_dataset :: "filesystem \<Rightarrow> string \<Rightarrow> log_msg list \<times> (py_error + health)" where
  "analyze_dataset fs name =
     (case fs name of
        None \<Rightarrow> ([], Inl FileNotFoundError)
      | Some f \<Rightarrow>
          let file_size = st_size f;
              logged = (if file_size > LARGE_FILE_BYTES then [LargeFile file_size] else [])
          in
          (case content f of
             None \<Rightarrow> (logged, Inl ReadError)
           | Some csv \<Rightarrow>
               (case scan_frames name (header csv) (frames csv) of
                  Inl e \<Rightarrow> (logged, Inl e)
                | Inr st \<Rightarrow> (logged @ progress st, finish name file_size (header csv) st))))"

section \<open>\<open>discover_datasets\<close> and \<open>main\<close>\<close>






section \<open>Notions of the specification and of the proofs\<close>

subsection \<open>Column resolution as the specification words it\<close>

text \<open>The result of \<open>f\<close> at the first element of the list where it has one.\<close>

fun first_some :: "('a \<Rightarrow> 'b option) \<Rightarrow> 'a list \<Rightarrow> 'b option" where
  "first_some f [] = None"
| "first_some f (x # xs) = (case f x of Some y \<Rightarrow> Some y | None \<Rightarrow> first_some f xs)"

text \<open>
  \<open>find_column_spec\<close> follows the sentence of the specification: the candidates in
  priority order, the first header whose normalized form equals the normalized candidate;
  failing that the candidates again, the first header whose normalized form contains the
  normalized candidate.
\<close>

definition find_column_spec :: "string list \<Rightarrow> string list \<Rightarrow> string option" where
  "find_column_spec columns candidates =
     (case first_some (\<lambda>candidate.
             find (\<lambda>h. normalize_name h = normalize_name candidate) columns) candidates of
        Some h \<Rightarrow> Some h
      | None \<Rightarrow>
          first_some (\<lambda>candidate.
             find (\<lambda>h. str_in (normalize_name candidate) (normalize_name h)) columns) candidates)"

text \<open>
  What the code does, told on the header list: headers with the same normalized form
  stand at the place of the first of them and answer with the last of them, and the
  substring pass skips a candidate whose normalized form is empty.
\<close>

definition last_with_key :: "string list \<Rightarrow> string \<Rightarrow> string option" where
  "last_with_key columns key = find (\<lambda>h. normalize_name h = key) (rev columns)"

definition first_containing :: "string list \<Rightarrow> string \<Rightarrow> string option" where
  "first_containing columns key =
     (if key = [] then None
      else case find (\<lambda>h. str_in key (normalize_name h)) columns of
             None \<Rightarrow> None
           | Some h \<Rightarrow> last_with_key columns (normalize_name h))"

definition find_column_by_header :: "string list \<Rightarrow> string list \<Rightarrow> string option" where
  "find_column_by_header columns candidates =
     (case first_some (\<lambda>candidate. last_with_key columns (normalize_name candidate)) candidates of
        Some h \<Rightarrow> Some h
      | None \<Rightarrow>
          first_some (\<lambda>candidate. first_containing columns (normalize_name candidate)) candidates)"

subsection \<open>The duplicate sample as the specification words it\<close>

text \<open>
  The first \<open>cap\<close> rows in arrival order, and the positions of the kept rows that repeat
  an earlier kept row: a row repeats another when both have the same cell in every column.
\<close>

definition first_rows :: "nat \<Rightarrow> frame list \<Rightarrow> row list" where
  "first_rows cap chunks = take cap (concat chunks)"

definition repeats :: "string list \<Rightarrow> row list \<Rightarrow> nat set" where
  "repeats columns kept =
     {i. i < length kept \<and> (\<exists>j<i. map (kept ! j) columns = map (kept ! i) columns)}"

subsection \<open>What an accumulator holds\<close>

text \<open>
  \<open>stat_of vs\<close> is the accumulator that describes the numbers \<open>vs\<close>: their count, their
  mean, the sum of their squared deviations from the mean, their least and their greatest.
\<close>

definition sum_sq_dev :: "real list \<Rightarrow> real" where
  "sum_sq_dev vs = sum_list (map (\<lambda>x. (x - series_mean vs)\<^sup>2) vs)"

definition stat_of :: "real list \<Rightarrow> RunningStat" where
  "stat_of vs =
     (if vs = [] then new_stat
      else \<lparr> count = int (length vs), mean = series_mean vs, m2 = sum_sq_dev vs,
             min_value = Some (series_min vs), max_value = Some (series_max vs) \<rparr>)"

subsection \<open>What the loop maintains\<close>

text \<open>
  The notions the proofs use: the accumulators have a count and an M2 that are not
  negative, both dicts have a key for every column, the sampler holds the first rows up to
  its cap, and \<open>entry_of\<close> is the missingness entry of a column.
\<close>

definition stats_ok :: "(string \<times> RunningStat) list \<Rightarrow> bool" where
  "stats_ok stats = list_all (\<lambda>p. 0 \<le> count (snd p) \<and> 0 \<le> m2 (snd p)) stats"

definition scan_ok :: "string list \<Rightarrow> scan \<Rightarrow> bool" where
  "scan_ok columns st =
     (set columns \<subseteq> fst ` set (missing_counts st)
      \<and> set columns \<subseteq> fst ` set (numeric_stats st)
      \<and> stats_ok (numeric_stats st))"

definition sample_step :: "frame list \<times> int \<Rightarrow> frame \<Rightarrow> frame list \<times> int" where
  "sample_step kept chunk =
     (if snd kept > 0
      then (fst kept @ [take (nat (min (snd kept) (int (length chunk)))) chunk],
            snd kept - min (snd kept) (int (length chunk)))
      else kept)"

text \<open>What the sampler holds after the rows \<open>seen\<close>.\<close>

definition sample_inv :: "int \<Rightarrow> row list \<Rightarrow> frame list \<times> int \<Rightarrow> bool" where
  "sample_inv cap seen kept =
     (concat (fst kept) = take (nat cap) seen
      \<and> snd kept = cap - int (length (concat (fst kept))))"

definition entry_of :: "int \<Rightarrow> int \<Rightarrow> missing_entry" where
  "entry_of n seen =
     \<lparr> missing = seen,
       missing_rate = (if n = 0 then 0 else real_of_int seen / real_of_int n),
       non_null = n - seen,
       non_null_rate = (if n = 0 then 0 else real_of_int (n - seen) / real_of_int n) \<rparr>"


subsection \<open>A small dataset\<close>

text \<open>
  A file system with one of the three datasets: one column, whose name resolves as the
  depth, the rate of penetration, the vibration and the time column alike, and one row.
\<close>

definition example_row :: row where
  "example_row = (\<lambda>col. Num 1)"

definition example_csv :: csv_data where
  "example_csv = \<lparr> header = [''TIME_ROP_VIBRATION_DEPTH''], frames = [[example_row]] \<rparr>"

definition example_file :: file_entry where
  "example_file = \<lparr> st_size = 64, content = Some example_csv \<rparr>"

definition example_fs :: filesystem where
  "example_fs = (\<lambda>name. if name = ''volve_drilling_best.csv'' then Some example_file else None)"

text \<open>
  A file system whose primary dataset has a header and no data rows; pandas yields one
  chunk without rows for such a file.
\<close>

definition empty_csv :: csv_data where
  "empty_csv = \<lparr> header = [''DEPTH'', ''ROP''], frames = [[]] \<rparr>"

definition empty_file :: file_entry where
  "empty_file = \<lparr> st_size = 10, content = Some empty_csv \<rparr>"

definition empty_fs :: filesystem where
  "empty_fs = (\<lambda>name. if name = ''volve_drilling_ares1_ready.csv'' then Some empty_file else None)"



text \<open>
  The accumulators that the code reaches on the two values 2^53 and 2^53 + 2: fed one by
  one, and fed in one batch.
\<close>

definition chunked_example :: RunningStat where
  "chunked_example =
     \<lparr> count = 2, mean = 2 ^ 53, m2 = 2, min_value = Some (2 ^ 53), max_value = Some (2 ^ 53 + 2) \<rparr>"

definition whole_example :: RunningStat where
  "whole_example =
     \<lparr> count = 2, mean = 2 ^ 53, m2 = 4, min_value = Some (2 ^ 53), max_value = Some (2 ^ 53 + 2) \<rparr>"

section \<open>Column resolution\<close>

lemma starts_with_prefix: "starts_with s k \<longleftrightarrow> prefix k s"
  by (induction s k rule: starts_with.induct) auto

lemma str_in_sublist: "str_in key s \<longleftrightarrow> sublist key s"
  by (induction s) (auto simp: starts_with_prefix sublist_Cons_right)

lemma normalize_name_Nil: "normalize_name [] = []"
  by (simp add: normalize_name_def str_lower_def strip_def)

lemmas name_eval = normalize_name_def str_lower_def lower_char_def is_alnum_def strip_def

lemma find_app:
  "find P (xs @ ys) = (case find P xs of Some x \<Rightarrow> Some x | None \<Rightarrow> find P ys)"
  by (induction xs) auto

lemma find_Some_P: "find P xs = Some x \<Longrightarrow> P x"
  by (induction xs) (auto split: if_splits)

lemma map_of_fold_update:
  "map_of (fold (\<lambda>col d. AList.update (normalize_name col) col d) columns d) key =
     (case find (\<lambda>h. normalize_name h = key) (rev columns) of
        Some h \<Rightarrow> Some h
      | None \<Rightarrow> map_of d key)"
proof (induction columns arbitrary: d)
  case Nil
  show ?case by simp
next
  case (Cons c cs)
  show ?case
    by (simp add: Cons.IH update_conv' find_app split: option.splits)
qed

lemma map_of_normalized_dict:
  "map_of (normalized_dict columns) key = last_with_key columns key"
  by (simp add: normalized_dict_def last_with_key_def map_of_fold_update split: option.splits)

lemma exact_pass_first_some:
  "exact_pass (normalized_dict columns) candidates =
     first_some (\<lambda>candidate. last_with_key columns (normalize_name candidate)) candidates"
  by (induction candidates) (simp_all add: map_of_normalized_dict split: option.splits)

text \<open>The first pair of an association list whose key satisfies \<open>P\<close> is the one \<open>map_of\<close> finds.\<close>

lemma find_key_map_of:
  "find (\<lambda>(k, v). P k) d =
     (case find P (map fst d) of
        None \<Rightarrow> None
      | Some k \<Rightarrow> (case map_of d k of None \<Rightarrow> None | Some v \<Rightarrow> Some (k, v)))"
proof (induction d)
  case Nil
  show ?case by simp
next
  case (Cons p d)
  obtain a b where p: "p = (a, b)" by (cases p)
  have ne: "\<And>k. \<not> P a \<Longrightarrow> find P (map fst d) = Some k \<Longrightarrow> k \<noteq> a"
    by (auto dest: find_Some_P)
  show ?case
    using ne by (auto simp: p Cons.IH split: option.splits)
qed

text \<open>The keys of the dict stand in the order of their first header.\<close>

lemma keys_fold_update:
  "find P (map fst (fold (\<lambda>col d. AList.update (normalize_name col) col d) columns d)) =
     (case find P (map fst d) of
        Some k \<Rightarrow> Some k
      | None \<Rightarrow> map_option normalize_name (find (\<lambda>h. P (normalize_name h)) columns))"
proof (induction columns arbitrary: d)
  case Nil
  show ?case by (simp split: option.splits)
next
  case (Cons c cs)
  show ?case
  proof (cases "normalize_name c \<in> set (map fst d)")
    case True
    then have "find P (map fst d) = None \<Longrightarrow> \<not> P (normalize_name c)"
      by (auto simp: find_None_iff)
    with True show ?thesis
      by (auto simp: Cons.IH update_keys split: option.splits)
  next
    case False
    then show ?thesis
      by (auto simp: Cons.IH update_keys find_app split: option.splits)
  qed
qed

lemma find_normalized_dict:
  "find (\<lambda>(k, v). P k) (normalized_dict columns) =
     (case find (\<lambda>h. P (normalize_name h)) columns of
        None \<Rightarrow> None
      | Some h \<Rightarrow>
          (case last_with_key columns (normalize_name h) of
             None \<Rightarrow> None
           | Some v \<Rightarrow> Some (normalize_name h, v)))"
  unfolding find_key_map_of map_of_normalized_dict
  by (simp add: normalized_dict_def keys_fold_update split: option.splits)

lemma substring_pass_first_some:
  "substring_pass (normalized_dict columns) candidates =
     first_some (\<lambda>candidate. first_containing columns (normalize_name candidate)) candidates"
proof (induction candidates)
  case Nil
  show ?case by simp
next
  case (Cons c cs)
  show ?case
  proof (cases "normalize_name c = []")
    case True
    then show ?thesis
      by (simp add: Cons.IH first_containing_def find_None_iff[THEN iffD2] split: option.splits)
  next
    case False
    have "find (\<lambda>(k, v). normalize_name c \<noteq> [] \<and> str_in (normalize_name c) k) (normalized_dict columns)
          = find (\<lambda>(k, v). str_in (normalize_name c) k) (normalized_dict columns)"
      using False by simp
    then show ?thesis
      using False
      by (simp add: Cons.IH first_containing_def find_normalized_dict Let_def split: option.splits)
  qed
qed

lemma find_column_eq_by_header:
  "find_column columns candidates = find_column_by_header columns candidates"
  by (simp add: find_column_def find_column_by_header_def exact_pass_first_some
      substring_pass_first_some Let_def split: option.splits)

text \<open>
  C5, as amended. \<open>find_column\<close> walks the candidates in priority order and answers, for
  the first candidate whose normalized form is the normalized form of a header, with the
  last header of that normalized form. Only when no candidate has such a header does it
  walk the candidates again, passing over a candidate whose normalized form is empty: for
  the first remaining candidate whose normalized form occurs inside the normalized form of
  a header, it takes the first such header and answers with the last header of the same
  normalized form. When nothing matches the answer is \<open>None\<close>. For the header
  BIT_DEPTH, DEPTH_ROP and the candidates BIT_DEPTH, DEPTH the answer is BIT_DEPTH.
\<close>

theorem find_column_resolution:
  "find_column columns candidates = find_column_by_header columns candidates
   \<and> find_column [''BIT_DEPTH'', ''DEPTH_ROP''] [''BIT_DEPTH'', ''DEPTH''] = Some ''BIT_DEPTH''"
proof
  show "find_column columns candidates = find_column_by_header columns candidates"
    by (rule find_column_eq_by_header)
  show "find_column [''BIT_DEPTH'', ''DEPTH_ROP''] [''BIT_DEPTH'', ''DEPTH''] = Some ''BIT_DEPTH''"
    by (simp add: find_column_def normalized_dict_def name_eval)
qed

text \<open>
  The resolution as C5 words it differs from the code twice: a candidate that normalizes
  to the empty string is contained in every header, yet resolves nothing; and of two
  headers with one normalized form the code answers with the later one.
\<close>

theorem find_column_spec_counterexample:
  "find_column [''ROP''] [''!!!''] = None
   \<and> find_column_spec [''ROP''] [''!!!''] = Some ''ROP''
   \<and> find_column [''A-B'', ''A_B''] [''A B''] = Some ''A_B''
   \<and> find_column_spec [''A-B'', ''A_B''] [''A B''] = Some ''A-B''"
  by (simp add: find_column_def find_column_spec_def normalized_dict_def name_eval)

section \<open>The expected vibration range\<close>

text \<open>
  What the code computes: the range (0, 5) when a column resolved and its normalized name
  contains "vibration 0 5", or contains "vibration" and does not contain "raw"; no range
  otherwise.
\<close>

lemma expect_vibration_range_code:
  "expect_vibration_range column_name =
     (if \<exists>name. column_name = Some name
            \<and> (sublist ''vibration 0 5'' (normalize_name name)
               \<or> (sublist ''vibration'' (normalize_name name)
                  \<and> \<not> sublist ''raw'' (normalize_name name)))
      then Some (0, 5) else None)"
proof (cases column_name)
  case None
  then show ?thesis by (simp add: expect_vibration_range_def)
next
  case (Some name)
  show ?thesis
  proof (cases "name = []")
    case True
    then show ?thesis
      using Some by (simp add: expect_vibration_range_def normalize_name_Nil)
  next
    case False
    then show ?thesis
      using Some by (simp add: expect_vibration_range_def str_in_sublist Let_def)
  qed
qed

text \<open>
  C4. \<open>expect_vibration_range\<close> should return the range (0, 5) exactly when the
  normalized name of the resolved vibration column contains "vibration" and does not
  contain "raw". The code does not: the header VIBRATION_0_5_RAW resolves as the vibration
  column, its normalized name "vibration 0 5 raw" contains "raw", and the code returns the
  range (0, 5) for it, where the docstring of the function and the name VIBRATION_RAW
  have no range.
\<close>

theorem expect_vibration_range_at_raw_name:
  "vibration_col (detect_standard_columns [''VIBRATION_0_5_RAW'']) = Some ''VIBRATION_0_5_RAW''
   \<and> normalize_name ''VIBRATION_0_5_RAW'' = ''vibration 0 5 raw''
   \<and> sublist ''raw'' ''vibration 0 5 raw''
   \<and> expect_vibration_range (Some ''VIBRATION_0_5_RAW'') = Some (0, 5)"
  by (simp add: str_in_sublist [symmetric] detect_standard_columns_def find_column_def
      normalized_dict_def expect_vibration_range_def name_eval)

lemma expect_vibration_range_raw:
  "expect_vibration_range (Some ''VIBRATION_RAW'') = None"
  by (simp add: expect_vibration_range_def name_eval)

section \<open>Merging batches into a \<open>RunningStat\<close>\<close>

lemma and_then_Inr [simp]: "and_then (Inr x) f = f x"
  by (simp add: and_then_def)

lemma and_then_Inl [simp]: "and_then (Inl e) f = Inl e"
  by (simp add: and_then_def)

lemma dropna_append: "dropna (xs @ ys) = dropna xs @ dropna ys"
  by (induction xs rule: dropna.induct) simp_all

text \<open>The sum of squared deviations from any centre, in raw sums.\<close>

lemma sum_sq_about:
  "sum_list (map (\<lambda>x. (x - c)\<^sup>2) vs)
     = sum_list (map (\<lambda>x. x\<^sup>2) vs) - 2 * c * sum_list vs + real (length vs) * c\<^sup>2"
  by (induction vs) (simp_all add: power2_eq_square algebra_simps)

lemma sum_list_mean: "vs \<noteq> [] \<Longrightarrow> sum_list vs = real (length vs) * series_mean vs"
  by (simp add: series_mean_def)

lemma sum_sq_dev_raw:
  assumes "vs \<noteq> []"
  shows "sum_sq_dev vs = sum_list (map (\<lambda>x. x\<^sup>2) vs) - real (length vs) * (series_mean vs)\<^sup>2"
  unfolding sum_sq_dev_def sum_sq_about
  by (simp add: sum_list_mean[OF assms] power2_eq_square algebra_simps)

lemma sum_sq_dev_nonneg: "0 \<le> sum_sq_dev vs"
  unfolding sum_sq_dev_def by (rule sum_list_nonneg) auto

text \<open>The two identities behind the parallel combination of means and of M2.\<close>

lemma chan_mean:
  fixes a b n1 n2 :: real
  assumes "n1 + n2 \<noteq> 0"
  shows "a + (b - a) * n2 / (n1 + n2) = (n1 * a + n2 * b) / (n1 + n2)"
  using assms by (simp add: field_simps)

lemma chan_m2:
  fixes a b n1 n2 q1 q2 :: real
  assumes "n1 + n2 \<noteq> 0"
  shows "(q1 - n1 * a\<^sup>2) + (q2 - n2 * b\<^sup>2) + (b - a) * (b - a) * n1 * n2 / (n1 + n2)
         = (q1 + q2) - (n1 + n2) * ((n1 * a + n2 * b) / (n1 + n2))\<^sup>2"
proof -
  have "(n1 + n2) * ((n1 * a + n2 * b) / (n1 + n2))\<^sup>2 = (n1 * a + n2 * b)\<^sup>2 / (n1 + n2)"
    using assms by (simp add: power2_eq_square)
  moreover have "n1 * a\<^sup>2 + n2 * b\<^sup>2 - (b - a) * (b - a) * n1 * n2 / (n1 + n2)
                 = (n1 * a + n2 * b)\<^sup>2 / (n1 + n2)"
    using assms by (simp add: field_simps power2_eq_square)
  ultimately show ?thesis by simp
qed

lemma lengths_nonzero: "ws \<noteq> [] \<Longrightarrow> real (length vs) + real (length ws) \<noteq> 0"
proof -
  assume "ws \<noteq> []"
  then have "0 < real (length ws)" by simp
  moreover have "0 \<le> real (length vs)" by simp
  ultimately show ?thesis by linarith
qed

lemma series_mean_append:
  assumes "vs \<noteq> []" "ws \<noteq> []"
  shows "series_mean (vs @ ws)
           = (real (length vs) * series_mean vs + real (length ws) * series_mean ws)
               / (real (length vs) + real (length ws))"
  using sum_list_mean[OF assms(1)] sum_list_mean[OF assms(2)]
  by (simp add: series_mean_def[of "vs @ ws"])

lemma series_var_times_length:
  "ws \<noteq> [] \<Longrightarrow> series_var ws * real (length ws) = sum_sq_dev ws"
  by (simp add: series_var_def sum_sq_dev_def)

lemma sum_sq_dev_append:
  assumes "vs \<noteq> []" "ws \<noteq> []"
  shows "sum_sq_dev vs + sum_sq_dev ws
           + (series_mean ws - series_mean vs) * (series_mean ws - series_mean vs)
               * real (length vs) * real (length ws) / (real (length vs) + real (length ws))
         = sum_sq_dev (vs @ ws)"
proof -
  have pos: "real (length vs) + real (length ws) \<noteq> 0"
    by (rule lengths_nonzero[OF assms(2)])
  have "vs @ ws \<noteq> []" using assms by simp
  then have "sum_sq_dev (vs @ ws)
      = (sum_list (map (\<lambda>x. x\<^sup>2) vs) + sum_list (map (\<lambda>x. x\<^sup>2) ws))
        - (real (length vs) + real (length ws)) * (series_mean (vs @ ws))\<^sup>2"
    by (simp add: sum_sq_dev_raw)
  then show ?thesis
    unfolding series_mean_append[OF assms] sum_sq_dev_raw[OF assms(1)] sum_sq_dev_raw[OF assms(2)]
    using chan_m2[OF pos] by simp
qed

lemma series_min_Min: "vs \<noteq> [] \<Longrightarrow> series_min vs = Min (set vs)"
  by (cases vs) (simp_all add: Min.set_eq_fold del: set_simps)

lemma series_max_Max: "vs \<noteq> [] \<Longrightarrow> series_max vs = Max (set vs)"
  by (cases vs) (simp_all add: Max.set_eq_fold del: set_simps)

lemma series_min_append:
  "vs \<noteq> [] \<Longrightarrow> ws \<noteq> [] \<Longrightarrow> series_min (vs @ ws) = min (series_min vs) (series_min ws)"
  by (simp add: series_min_Min Min_Un)

lemma series_max_append:
  "vs \<noteq> [] \<Longrightarrow> ws \<noteq> [] \<Longrightarrow> series_max (vs @ ws) = max (series_max vs) (series_max ws)"
  by (simp add: series_max_Max Max_Un)

text \<open>The first batch with a number in it sets the accumulator.\<close>

lemma update_fresh:
  assumes "dropna (to_numeric series) = ws"
  shows "update new_stat series = Inr (stat_of ws)"
proof (cases "ws = []")
  case True
  then show ?thesis using assms by (simp add: update_def stat_of_def)
next
  case False
  then show ?thesis
    using assms
    by (simp add: update_def stat_of_def new_stat_def Let_def series_var_times_length)
qed

text \<open>A later batch is merged: the accumulator of \<open>vs\<close> becomes that of \<open>vs @ ws\<close>.\<close>

lemma update_stat_of:
  assumes "dropna (to_numeric series) = ws" and "vs \<noteq> []"
  shows "update (stat_of vs) series = Inr (stat_of (vs @ ws))"
proof (cases "ws = []")
  case True
  then show ?thesis using assms by (simp add: update_def)
next
  case False
  have total: "real (length vs) + real (length ws) \<noteq> 0"
    by (rule lengths_nonzero[OF False])
  have mean_eq: "series_mean vs
        + (series_mean ws - series_mean vs) * real (length ws) / (real (length vs) + real (length ws))
      = series_mean (vs @ ws)"
    unfolding series_mean_append[OF assms(2) False] using chan_mean[OF total] .
  have m2_eq: "sum_sq_dev vs + series_var ws * real (length ws)
        + (series_mean ws - series_mean vs) * (series_mean ws - series_mean vs)
            * real (length vs) * real (length ws) / (real (length vs) + real (length ws))
      = sum_sq_dev (vs @ ws)"
    unfolding series_var_times_length[OF False] using sum_sq_dev_append[OF assms(2) False] .
  have min_eq: "(if series_min ws < series_min vs then series_min ws else series_min vs)
      = series_min (vs @ ws)"
    by (simp add: series_min_append[OF assms(2) False] min_def)
  have max_eq: "(if series_max vs < series_max ws then series_max ws else series_max vs)
      = series_max (vs @ ws)"
    by (simp add: series_max_append[OF assms(2) False] max_def)
  have "update (stat_of vs) series
      = Inr \<lparr> count = int (length vs) + int (length ws),
              mean = series_mean (vs @ ws), m2 = sum_sq_dev (vs @ ws),
              min_value = Some (if series_min ws < series_min vs then series_min ws else series_min vs),
              max_value = Some (if series_max vs < series_max ws then series_max ws else series_max vs) \<rparr>"
    using assms False total mean_eq m2_eq
    by (simp add: update_def stat_of_def Let_def py_div_def)
  then show ?thesis
    using assms(2) False by (simp add: min_eq max_eq stat_of_def)
qed

lemma update_any_stat_of:
  "update (stat_of vs) series = Inr (stat_of (vs @ dropna (to_numeric series)))"
proof (cases "vs = []")
  case True
  then show ?thesis using update_fresh[OF refl, of series] by (simp add: stat_of_def)
next
  case False
  then show ?thesis by (rule update_stat_of[OF refl])
qed

lemma update_all_stat_of:
  "update_all (stat_of vs) batches
     = Inr (stat_of (vs @ dropna (to_numeric (concat batches))))"
proof (induction batches arbitrary: vs)
  case Nil
  show ?case by (simp add: to_numeric_def)
next
  case (Cons b bs)
  show ?case
    by (simp add: update_any_stat_of Cons.IH to_numeric_def dropna_append)
qed

lemma std_stat_of: "\<exists>sd. std (stat_of vs) = Inr sd"
proof (cases "length vs \<le> 1")
  case True
  then show ?thesis by (simp add: std_def stat_of_def new_stat_def)
next
  case False
  then have ne: "vs \<noteq> []" by auto
  have "0 \<le> sum_sq_dev vs / real (length vs)"
    by (simp add: sum_sq_dev_nonneg)
  then have "\<not> sum_sq_dev vs / real (length vs) < 0"
    by linarith
  with ne show ?thesis
    by (simp add: std_def stat_of_def py_div_def py_sqrt_def)
qed

subsection \<open>The same in double precision\<close>

lemma rne_of_int: "rne (of_int n) = n"
  by (simp add: rne_def)

lemma rne_near: "\<bar>of_int (rne y) - y\<bar> \<le> 1 / 2"
  unfolding rne_def Let_def by (auto simp: abs_if) linarith+

lemma fl_zero: "fl 0 = 0"
  by (simp add: fl_def)

lemma fl_at:
  assumes "2 ^ 52 \<le> \<bar>x\<bar> / 2 powr of_int i" and "\<bar>x\<bar> / 2 powr of_int i < 2 ^ 53"
  shows "fl x = of_int (rne (x / 2 powr of_int i)) * 2 powr of_int i"
proof -
  have q: "0 < (2::real) powr of_int i" by simp
  have p52: "(2::real) ^ 52 = 2 powr 52" "(2::real) ^ 53 = 2 powr 53"
    by (simp_all add: powr_numeral del: power_numeral)
  have lo: "2 powr (of_int (i + 52)) \<le> \<bar>x\<bar>"
    using assms(1) q unfolding p52 by (simp add: powr_add field_simps)
  have hi: "\<bar>x\<bar> < 2 powr (of_int (i + 52) + 1)"
    using assms(2) q unfolding p52 by (simp add: powr_add field_simps)
  have pos: "0 < \<bar>x\<bar>"
    by (rule less_le_trans[OF _ lo]) simp
  then have nz: "x \<noteq> 0" by auto
  have "\<lfloor>log 2 \<bar>x\<bar>\<rfloor> = i + 52"
    using floor_log_eq_powr_iff[of "\<bar>x\<bar>" 2 "i + 52"] pos lo hi by simp
  then show ?thesis
    using nz by (simp add: fl_def Let_def)
qed

lemma fl_coarse:
  assumes "2 ^ 52 \<le> \<bar>x\<bar> / 2 ^ k" and "\<bar>x\<bar> / 2 ^ k < 2 ^ 53"
  shows "fl x = of_int (rne (x / 2 ^ k)) * 2 ^ k"
  using fl_at[of x "int k"] assms by (simp add: powr_realpow)

lemma fl_fine:
  assumes "2 ^ 52 \<le> \<bar>x\<bar> * 2 ^ k" and "\<bar>x\<bar> * 2 ^ k < 2 ^ 53"
  shows "fl x = of_int (rne (x * 2 ^ k)) / 2 ^ k"
proof -
  have "2 powr of_int (- int k) = 1 / (2::real) ^ k"
    by (simp add: powr_minus powr_realpow inverse_eq_divide)
  then show ?thesis
    using fl_at[of x "- int k"] assms by simp
qed

lemma fl_values:
  "fl 1 = 1" "fl 2 = 2" "fl 4 = 4" "fl (- 2) = - 2"
  "fl 9007199254740992 = 9007199254740992"
  "fl 9007199254740993 = 9007199254740992"
  "fl 9007199254740994 = 9007199254740994"
  "fl 18014398509481986 = 18014398509481984"
  using fl_fine[of 1 52] fl_fine[of 2 51] fl_fine[of 4 50] fl_fine[of "- 2" 51]
    fl_coarse[of 9007199254740992 1] fl_coarse[of 9007199254740993 1]
    fl_coarse[of 9007199254740994 1] fl_coarse[of 18014398509481986 2]
  by (simp_all add: rne_def)

lemma sqrt2_low: "14 / 10 \<le> fl (sqrt 2)"
proof -
  have a: "1 \<le> sqrt 2" by simp
  have b: "sqrt 2 < 2"
    by (rule real_less_lsqrt) simp_all
  have c: "141 / 100 \<le> sqrt 2"
    by (rule real_le_rsqrt) (simp add: power2_eq_square)
  have e: "fl (sqrt 2) = of_int (rne (sqrt 2 * 2 ^ 52)) / 2 ^ 52"
    using fl_fine[of "sqrt 2" 52] a b by simp
  have "sqrt 2 * 2 ^ 52 - 1 / 2 \<le> of_int (rne (sqrt 2 * 2 ^ 52))"
    using rne_near[of "sqrt 2 * 2 ^ 52"] by linarith
  then have "(sqrt 2 * 2 ^ 52 - 1 / 2) / 2 ^ 52 \<le> fl (sqrt 2)"
    unfolding e by (simp add: divide_right_mono)
  then show ?thesis
    using c by simp
qed

lemma sqrt2_high: "fl (sqrt 2) \<le> 15 / 10"
proof -
  have a: "1 \<le> sqrt 2" by simp
  have b: "sqrt 2 < 2"
    by (rule real_less_lsqrt) simp_all
  have c: "sqrt 2 \<le> 142 / 100"
    by (rule real_le_lsqrt) (simp_all add: power2_eq_square)
  have e: "fl (sqrt 2) = of_int (rne (sqrt 2 * 2 ^ 52)) / 2 ^ 52"
    using fl_fine[of "sqrt 2" 52] a b by simp
  have "of_int (rne (sqrt 2 * 2 ^ 52)) \<le> sqrt 2 * 2 ^ 52 + 1 / 2"
    using rne_near[of "sqrt 2 * 2 ^ 52"] by linarith
  then have "fl (sqrt 2) \<le> (sqrt 2 * 2 ^ 52 + 1 / 2) / 2 ^ 52"
    unfolding e by (simp add: divide_right_mono)
  then show ?thesis
    using c by simp
qed

lemmas f64_eval = update_f64_def nanmean_def nanvar_def np_sum_def py_div_f64_def
  to_numeric_def new_stat_def Let_def fl_zero fl_values

lemma chunked_first:
  "update_f64 new_stat [Num (2 ^ 53)]
     = Inr \<lparr> count = 1, mean = 2 ^ 53, m2 = 0, min_value = Some (2 ^ 53), max_value = Some (2 ^ 53) \<rparr>"
  by (simp add: f64_eval)

lemma chunked_second:
  "update_f64 \<lparr> count = 1, mean = 2 ^ 53, m2 = 0, min_value = Some (2 ^ 53), max_value = Some (2 ^ 53) \<rparr>
     [Num (2 ^ 53 + 2)] = Inr chunked_example"
  by (simp add: f64_eval chunked_example_def)

lemma whole_run:
  "update_f64 new_stat [Num (2 ^ 53), Num (2 ^ 53 + 2)] = Inr whole_example"
  by (simp add: f64_eval whole_example_def)

lemma update_f64_count:
  assumes "0 \<le> count s"
  shows "\<exists>s'. update_f64 s series = Inr s'
           \<and> count s' = count s + int (length (dropna (to_numeric series)))"
proof -
  let ?vs = "dropna (to_numeric series)"
  show ?thesis
  proof (cases "?vs = []")
    case True
    then show ?thesis by (simp add: update_f64_def)
  next
    case False
    show ?thesis
    proof (cases "count s = 0")
      case True
      then show ?thesis
        using False by (simp add: update_f64_def Let_def)
    next
      case nz: False
      have tot: "real_of_int (count s + int (length ?vs)) \<noteq> 0"
        using assms nz False by (simp add: of_int_eq_0_iff)
      show ?thesis
        using False nz tot by (simp add: update_f64_def Let_def py_div_f64_def)
    qed
  qed
qed

lemma update_all_f64_count:
  assumes "0 \<le> count s"
  shows "\<exists>s'. update_all_f64 s batches = Inr s'
           \<and> count s' = count s + int (length (dropna (to_numeric (concat batches))))"
  using assms
proof (induction batches arbitrary: s)
  case Nil
  show ?case by (simp add: to_numeric_def)
next
  case (Cons b bs)
  from update_f64_count[OF Cons.prems, of b] obtain s1 where
    s1: "update_f64 s b = Inr s1" "count s1 = count s + int (length (dropna (to_numeric b)))"
    by blast
  then have "0 \<le> count s1"
    using Cons.prems by simp
  from Cons.IH[OF this] obtain s' where
    "update_all_f64 s1 bs = Inr s'"
    "count s' = count s1 + int (length (dropna (to_numeric (concat bs))))"
    by blast
  then show ?case
    using s1 by (simp add: to_numeric_def dropna_append)
qed

text \<open>
  C1, as amended. Whatever the values and however they are cut into consecutive batches,
  feeding the batches one by one to a fresh \<open>RunningStat\<close> and feeding it the whole
  sequence in one call both succeed. Under exact arithmetic they leave the same
  accumulator: the same count, the same mean and the same standard deviation. In double
  precision they leave the same count.
\<close>

theorem chunked_update_exact_arithmetic:
  "(\<exists>chunked whole sd.
      update_all new_stat batches = Inr chunked
    \<and> update new_stat (concat batches) = Inr whole
    \<and> chunked = whole
    \<and> count chunked = count whole
    \<and> mean chunked = mean whole
    \<and> std whole = Inr sd
    \<and> std chunked = Inr sd)
   \<and> (\<exists>chunked whole.
      update_all_f64 new_stat batches = Inr chunked
    \<and> update_f64 new_stat (concat batches) = Inr whole
    \<and> count chunked = count whole)"
proof
  let ?vs = "dropna (to_numeric (concat batches))"
  have chunked: "update_all new_stat batches = Inr (stat_of ?vs)"
    using update_all_stat_of[of "[]" batches] by (simp add: stat_of_def)
  have whole: "update new_stat (concat batches) = Inr (stat_of ?vs)"
    by (rule update_fresh[OF refl])
  obtain sd where "std (stat_of ?vs) = Inr sd"
    using std_stat_of by blast
  with chunked whole show "\<exists>chunked whole sd.
      update_all new_stat batches = Inr chunked
    \<and> update new_stat (concat batches) = Inr whole
    \<and> chunked = whole
    \<and> count chunked = count whole
    \<and> mean chunked = mean whole
    \<and> std whole = Inr sd
    \<and> std chunked = Inr sd"
    by simp
  have z: "0 \<le> count new_stat"
    by (simp add: new_stat_def)
  from update_all_f64_count[OF z, of batches] obtain c where
    c: "update_all_f64 new_stat batches = Inr c" "count c = count new_stat + int (length ?vs)"
    by blast
  from update_f64_count[OF z, of "concat batches"] obtain w where
    w: "update_f64 new_stat (concat batches) = Inr w" "count w = count new_stat + int (length ?vs)"
    by blast
  show "\<exists>chunked whole.
      update_all_f64 new_stat batches = Inr chunked
    \<and> update_f64 new_stat (concat batches) = Inr whole
    \<and> count chunked = count whole"
    using c w by simp
qed

text \<open>
  In double precision the two standard deviations need not be within a relative tolerance
  of 1e-9. The values 2^53 and 2^53 + 2 fed one by one give the standard deviation 1,
  which is the exact one; fed in one batch they give the double nearest to the square root
  of 2, because their sum rounds to 2^54 and their mean to 2^53.
\<close>

theorem chunked_update_f64_counterexample:
  "update_all_f64 new_stat [[Num (2 ^ 53)], [Num (2 ^ 53 + 2)]] = Inr chunked_example
   \<and> update_f64 new_stat (concat [[Num (2 ^ 53)], [Num (2 ^ 53 + 2)]]) = Inr whole_example
   \<and> std_f64 chunked_example = Inr 1
   \<and> std_f64 whole_example = Inr (fl (sqrt 2))
   \<and> \<bar>fl (sqrt 2) - 1\<bar> > 1 / 10 ^ 9 * max \<bar>fl (sqrt 2)\<bar> \<bar>1\<bar>"
proof -
  have a: "update_all_f64 new_stat [[Num (2 ^ 53)], [Num (2 ^ 53 + 2)]] = Inr chunked_example"
    using chunked_first chunked_second by simp
  have b: "update_f64 new_stat (concat [[Num (2 ^ 53)], [Num (2 ^ 53 + 2)]]) = Inr whole_example"
    using whole_run by simp
  have c: "std_f64 chunked_example = Inr 1"
    by (simp add: std_f64_def chunked_example_def py_div_f64_def py_sqrt_f64_def fl_values)
  have d: "std_f64 whole_example = Inr (fl (sqrt 2))"
    by (simp add: std_f64_def whole_example_def py_div_f64_def py_sqrt_f64_def fl_values)
  have e: "\<bar>fl (sqrt 2) - 1\<bar> > 1 / 10 ^ 9 * max \<bar>fl (sqrt 2)\<bar> \<bar>1\<bar>"
    using sqrt2_low sqrt2_high by (simp add: max_def abs_if)
  show ?thesis
    using a b c d e by simp
qed

section \<open>The chunk loop and the finalization never raise\<close>


lemma py_div_nonzero: "b \<noteq> 0 \<Longrightarrow> py_div a b = Inr (a / b)"
  by (simp add: py_div_def)

lemma series_var_nonneg: "0 \<le> series_var vs"
  unfolding series_var_def
  by (rule divide_nonneg_nonneg, rule sum_list_nonneg) auto

lemma update_ok:
  assumes "0 \<le> count s" and "0 \<le> m2 s"
  shows "\<exists>s'. update s series = Inr s' \<and> 0 \<le> count s' \<and> 0 \<le> m2 s'"
proof -
  let ?vs = "dropna (to_numeric series)"
  show ?thesis
  proof (cases "?vs = []")
    case True
    then show ?thesis using assms by (simp add: update_def)
  next
    case False
    let ?n = "int (length ?vs)"
    have m2c: "0 \<le> series_var ?vs * real_of_int ?n"
      by (simp add: series_var_nonneg)
    show ?thesis
    proof (cases "count s = 0")
      case True
      then show ?thesis
        using False m2c by (simp add: update_def Let_def)
    next
      case nz: False
      let ?d = "series_mean ?vs - mean s"
      have tot: "real_of_int (count s + ?n) \<noteq> 0"
        using assms(1) nz False by (simp add: of_int_eq_0_iff) 
      have sq: "0 \<le> ?d * ?d" by simp
      have sq1: "0 \<le> ?d * ?d * real_of_int (count s)"
        by (rule mult_nonneg_nonneg[OF sq]) (simp add: assms(1))
      have "0 \<le> ?d * ?d * real_of_int (count s) * real_of_int ?n"
        by (rule mult_nonneg_nonneg[OF sq1]) simp
      then have "0 \<le> ?d * ?d * real_of_int (count s) * real_of_int ?n / real_of_int (count s + ?n)"
        using assms(1) by (intro divide_nonneg_nonneg) auto
      then have "0 \<le> m2 s + series_var ?vs * real_of_int ?n
               + ?d * ?d * real_of_int (count s) * real_of_int ?n / real_of_int (count s + ?n)"
        using assms(2) m2c by linarith
      then show ?thesis
        using False nz tot assms(1)
        by (simp add: update_def Let_def py_div_def)
    qed
  qed
qed

lemma update_empty: "update s [] = Inr s"
  by (simp add: update_def to_numeric_def)

lemma getitem_present:
  "k \<in> fst ` set d \<Longrightarrow> \<exists>v. getitem d k = Inr v \<and> map_of d k = Some v \<and> (k, v) \<in> set d"
  by (cases "map_of d k") (auto simp: getitem_def map_of_eq_None_iff dest: map_of_SomeD)

lemma set_update_subset: "set (AList.update k v al) \<subseteq> insert (k, v) (set al)"
  by (induction al) auto

lemma stats_ok_update:
  "stats_ok stats \<Longrightarrow> 0 \<le> count s \<Longrightarrow> 0 \<le> m2 s \<Longrightarrow> stats_ok (AList.update k s stats)"
  using set_update_subset[of k s stats] by (auto simp: stats_ok_def list_all_iff)

lemma update_columns_ok:
  assumes "set cs \<subseteq> fst ` set (missing_counts st)"
    and "set cs \<subseteq> fst ` set (numeric_stats st)"
    and "stats_ok (numeric_stats st)"
  shows "\<exists>st'. update_columns chunk cs st = Inr st'
           \<and> st' = st\<lparr> missing_counts := missing_counts st', numeric_stats := numeric_stats st' \<rparr>
           \<and> fst ` set (missing_counts st') = fst ` set (missing_counts st)
           \<and> fst ` set (numeric_stats st') = fst ` set (numeric_stats st)
           \<and> stats_ok (numeric_stats st')"
  using assms
proof (induction cs arbitrary: st)
  case Nil
  show ?case using Nil by simp
next
  case (Cons col rest)
  from Cons.prems(1) obtain seen where seen: "getitem (missing_counts st) col = Inr seen"
    using getitem_present[of col "missing_counts st"] by auto
  let ?st1 = "st\<lparr> missing_counts :=
      AList.update col (seen + isna_sum (column_of chunk col)) (missing_counts st) \<rparr>"
  from Cons.prems(2) obtain stat where stat: "getitem (numeric_stats st) col = Inr stat"
    and mem: "(col, stat) \<in> set (numeric_stats st)"
    using getitem_present[of col "numeric_stats st"] by auto
  from mem Cons.prems(3) have good: "0 \<le> count stat" "0 \<le> m2 stat"
    by (auto simp: stats_ok_def list_all_iff)
  from update_ok[OF good] obtain stat' where
    upd: "update stat (column_of chunk col) = Inr stat'" and good': "0 \<le> count stat'" "0 \<le> m2 stat'"
    by blast
  let ?st2 = "?st1\<lparr> numeric_stats := AList.update col stat' (numeric_stats ?st1) \<rparr>"
  have keys1: "fst ` set (missing_counts ?st2) = fst ` set (missing_counts st)"
    using Cons.prems(1) by (auto simp: dom_update)
  have keys2: "fst ` set (numeric_stats ?st2) = fst ` set (numeric_stats st)"
    using Cons.prems(2) by (auto simp: dom_update)
  have ok2: "stats_ok (numeric_stats ?st2)"
    using stats_ok_update[OF Cons.prems(3) good'] by simp
  have "set rest \<subseteq> fst ` set (missing_counts ?st2)" "set rest \<subseteq> fst ` set (numeric_stats ?st2)"
    using Cons.prems(1,2) keys1 keys2 by auto
  from Cons.IH[OF this ok2] obtain st' where
    r: "update_columns chunk rest ?st2 = Inr st'"
    and shape: "st' = ?st2\<lparr> missing_counts := missing_counts st', numeric_stats := numeric_stats st' \<rparr>"
    and k1: "fst ` set (missing_counts st') = fst ` set (missing_counts ?st2)"
    and k2: "fst ` set (numeric_stats st') = fst ` set (numeric_stats ?st2)"
    and ok: "stats_ok (numeric_stats st')"
    by blast
  have run: "update_columns chunk (col # rest) st = Inr st'"
    using seen stat upd r by (simp add: Let_def)
  have shape': "st' = st\<lparr> missing_counts := missing_counts st', numeric_stats := numeric_stats st' \<rparr>"
    by (subst shape) simp
  show ?case
    using run shape' k1 k2 ok keys1 keys2 by (metis)
qed


lemma count_negative_depth_fields [simp]:
  "row_count (count_negative_depth columns standard chunk st) = row_count st"
  "fully_empty_rows (count_negative_depth columns standard chunk st) = fully_empty_rows st"
  "missing_counts (count_negative_depth columns standard chunk st) = missing_counts st"
  "numeric_stats (count_negative_depth columns standard chunk st) = numeric_stats st"
  "sample_frames (count_negative_depth columns standard chunk st) = sample_frames st"
  "sample_remaining (count_negative_depth columns standard chunk st) = sample_remaining st"
  "vibration_out_of_range (count_negative_depth columns standard chunk st) = vibration_out_of_range st"
  by (simp_all add: count_negative_depth_def split: option.splits)

lemma count_out_of_range_fields [simp]:
  "row_count (count_out_of_range columns standard vr chunk st) = row_count st"
  "fully_empty_rows (count_out_of_range columns standard vr chunk st) = fully_empty_rows st"
  "missing_counts (count_out_of_range columns standard vr chunk st) = missing_counts st"
  "numeric_stats (count_out_of_range columns standard vr chunk st) = numeric_stats st"
  "sample_frames (count_out_of_range columns standard vr chunk st) = sample_frames st"
  "sample_remaining (count_out_of_range columns standard vr chunk st) = sample_remaining st"
  "depth_negative (count_out_of_range columns standard vr chunk st) = depth_negative st"
  by (simp_all add: count_out_of_range_def split: option.splits prod.splits)

lemma feed_sample_fields [simp]:
  "row_count (feed_sample chunk st) = row_count st"
  "fully_empty_rows (feed_sample chunk st) = fully_empty_rows st"
  "missing_counts (feed_sample chunk st) = missing_counts st"
  "numeric_stats (feed_sample chunk st) = numeric_stats st"
  "depth_negative (feed_sample chunk st) = depth_negative st"
  "vibration_out_of_range (feed_sample chunk st) = vibration_out_of_range st"
  by (simp_all add: feed_sample_def Let_def)

lemma heartbeat_fields [simp]:
  "row_count (heartbeat i name st) = row_count st"
  "fully_empty_rows (heartbeat i name st) = fully_empty_rows st"
  "missing_counts (heartbeat i name st) = missing_counts st"
  "numeric_stats (heartbeat i name st) = numeric_stats st"
  "depth_negative (heartbeat i name st) = depth_negative st"
  "vibration_out_of_range (heartbeat i name st) = vibration_out_of_range st"
  "sample_frames (heartbeat i name st) = sample_frames st"
  "sample_remaining (heartbeat i name st) = sample_remaining st"
  by (simp_all add: heartbeat_def)

lemma feed_sample_step:
  "(sample_frames (feed_sample chunk st), sample_remaining (feed_sample chunk st))
     = sample_step (sample_frames st, sample_remaining st) chunk"
  by (simp add: feed_sample_def sample_step_def Let_def)

lemma process_chunk_after_columns:
  assumes "update_columns chunk columns
             (st\<lparr> row_count := row_count st + int (length chunk),
                  fully_empty_rows := fully_empty_rows st + all_na_rows columns chunk \<rparr>) = Inr st1"
  shows "\<exists>st'. process_chunk columns standard vr name (i, chunk) st = Inr st'
           \<and> missing_counts st' = missing_counts st1
           \<and> numeric_stats st' = numeric_stats st1
           \<and> row_count st' = row_count st1
           \<and> fully_empty_rows st' = fully_empty_rows st1
           \<and> (sample_frames st', sample_remaining st')
               = sample_step (sample_frames st1, sample_remaining st1) chunk"
  using assms feed_sample_step[of chunk "count_out_of_range columns standard vr chunk
                  (count_negative_depth columns standard chunk st1)"]
  by (simp add: process_chunk_def Let_def)

lemma process_chunk_ok:
  assumes "scan_ok columns st"
  shows "\<exists>st'. process_chunk columns standard vr name (i, chunk) st = Inr st'
           \<and> scan_ok columns st'
           \<and> row_count st' = row_count st + int (length chunk)
           \<and> fully_empty_rows st' = fully_empty_rows st + all_na_rows columns chunk
           \<and> (sample_frames st', sample_remaining st')
               = sample_step (sample_frames st, sample_remaining st) chunk"
proof -
  let ?st0 = "st\<lparr> row_count := row_count st + int (length chunk),
                  fully_empty_rows := fully_empty_rows st + all_na_rows columns chunk \<rparr>"
  have pre: "set columns \<subseteq> fst ` set (missing_counts ?st0)"
    "set columns \<subseteq> fst ` set (numeric_stats ?st0)" "stats_ok (numeric_stats ?st0)"
    using assms by (simp_all add: scan_ok_def)
  from update_columns_ok[OF pre, of chunk] obtain st1 where
    run: "update_columns chunk columns ?st0 = Inr st1"
    and shape: "st1 = ?st0\<lparr> missing_counts := missing_counts st1, numeric_stats := numeric_stats st1 \<rparr>"
    and k1: "fst ` set (missing_counts st1) = fst ` set (missing_counts ?st0)"
    and k2: "fst ` set (numeric_stats st1) = fst ` set (numeric_stats ?st0)"
    and ok: "stats_ok (numeric_stats st1)"
    by blast
  have f1: "row_count st1 = row_count st + int (length chunk)"
    by (subst shape) simp
  have f2: "fully_empty_rows st1 = fully_empty_rows st + all_na_rows columns chunk"
    by (subst shape) simp
  have f3: "sample_frames st1 = sample_frames st" "sample_remaining st1 = sample_remaining st"
    by (subst shape, simp)+
  from process_chunk_after_columns[OF run, of standard vr name i] obtain st' where
    r: "process_chunk columns standard vr name (i, chunk) st = Inr st'"
    and g: "missing_counts st' = missing_counts st1" "numeric_stats st' = numeric_stats st1"
      "row_count st' = row_count st1" "fully_empty_rows st' = fully_empty_rows st1"
      "(sample_frames st', sample_remaining st')
         = sample_step (sample_frames st1, sample_remaining st1) chunk"
    by blast
  have "scan_ok columns st'"
    using pre k1 k2 ok g(1,2) by (simp add: scan_ok_def)
  then show ?thesis
    using r g f1 f2 f3 by simp
qed

lemma sample_step_inv:
  assumes "sample_inv cap seen kept" and "0 \<le> cap"
  shows "sample_inv cap (seen @ chunk) (sample_step kept chunk)"
proof (cases "snd kept > 0")
  case True
  have kept: "concat (fst kept) = take (nat cap) seen"
    "snd kept = cap - int (length (concat (fst kept)))"
    using assms(1) by (simp_all add: sample_inv_def)
  have "length (take (nat cap) seen) < nat cap"
    using True kept by simp
  then have short: "length seen < nat cap"
    by auto
  then have all: "concat (fst kept) = seen"
    using kept(1) by simp
  let ?n = "min (snd kept) (int (length chunk))"
  have rem: "snd kept = cap - int (length seen)"
    using kept(2) all by simp
  have n_nat: "nat ?n = min (nat cap - length seen) (length chunk)"
    using rem short by (simp add: min_def) linarith
  have tk: "take (nat ?n) chunk = take (nat cap - length seen) chunk"
    unfolding n_nat by (simp add: min_def)
  have len: "int (length (take (nat ?n) chunk)) = ?n"
    using True by (simp add: min_def) arith
  have step: "sample_step kept chunk = (fst kept @ [take (nat ?n) chunk], snd kept - ?n)"
    using True by (simp add: sample_step_def)
  have c1: "concat (fst kept @ [take (nat ?n) chunk]) = take (nat cap) (seen @ chunk)"
    using all short tk by simp
  have c2: "snd kept - ?n = cap - int (length (concat (fst kept @ [take (nat ?n) chunk])))"
    using len all rem by simp
  show ?thesis
    unfolding step sample_inv_def fst_conv snd_conv using c1 c2 by blast
next
  case False
  then have "nat cap \<le> length seen"
    using assms by (simp add: sample_inv_def)
  then show ?thesis
    using False assms by (simp add: sample_inv_def sample_step_def)
qed

lemma scan_chunks_ok:
  assumes "scan_ok columns st"
    and "sample_inv cap seen (sample_frames st, sample_remaining st)" and "0 \<le> cap"
  shows "\<exists>st'. scan_chunks columns standard vr name ics st = Inr st'
           \<and> scan_ok columns st'
           \<and> row_count st' = row_count st + int (length (concat (map snd ics)))
           \<and> sample_inv cap (seen @ concat (map snd ics)) (sample_frames st', sample_remaining st')"
  using assms(1,2)
proof (induction ics arbitrary: st seen)
  case Nil
  then show ?case by simp
next
  case (Cons ic rest)
  obtain i chunk where ic: "ic = (i, chunk)" by (cases ic)
  from process_chunk_ok[OF Cons.prems(1), of standard vr name i chunk] obtain st1 where
    r: "process_chunk columns standard vr name (i, chunk) st = Inr st1"
    and ok: "scan_ok columns st1"
    and rc: "row_count st1 = row_count st + int (length chunk)"
    and sm: "(sample_frames st1, sample_remaining st1)
               = sample_step (sample_frames st, sample_remaining st) chunk"
    by blast
  have inv: "sample_inv cap (seen @ chunk) (sample_frames st1, sample_remaining st1)"
    unfolding sm by (rule sample_step_inv[OF Cons.prems(2) assms(3)])
  from Cons.IH[OF ok inv] obtain st' where
    "scan_chunks columns standard vr name rest st1 = Inr st'"
    "scan_ok columns st'"
    "row_count st' = row_count st1 + int (length (concat (map snd rest)))"
    "sample_inv cap ((seen @ chunk) @ concat (map snd rest)) (sample_frames st', sample_remaining st')"
    by blast
  then show ?case
    using r rc by (simp add: ic)
qed


subsection \<open>The finalization\<close>

lemma missingness_entry_eq: "missingness_entry n seen = Inr (entry_of n seen)"
  by (simp add: missingness_entry_def entry_of_def py_div_def Let_def)

lemma build_missingness_ok:
  assumes "set cs \<subseteq> fst ` set counts"
  shows "\<exists>m. build_missingness n counts cs acc = Inr m
           \<and> (\<forall>c. map_of m c =
                 (if c \<in> set cs then map_option (entry_of n) (map_of counts c) else map_of acc c))"
  using assms
proof (induction cs arbitrary: acc)
  case Nil
  show ?case by simp
next
  case (Cons col rest)
  from Cons.prems obtain seen where seen: "getitem counts col = Inr seen" "map_of counts col = Some seen"
    using getitem_present[of col counts] by auto
  from Cons.prems have "set rest \<subseteq> fst ` set counts" by simp
  from Cons.IH[OF this, of "AList.update col (entry_of n seen) acc"] obtain m where
    m: "build_missingness n counts rest (AList.update col (entry_of n seen) acc) = Inr m"
    "\<forall>c. map_of m c = (if c \<in> set rest then map_option (entry_of n) (map_of counts c)
                          else map_of (AList.update col (entry_of n seen) acc) c)"
    by blast
  have "build_missingness n counts (col # rest) acc = Inr m"
    using seen m(1) by (simp add: missingness_entry_eq)
  moreover have "\<forall>c. map_of m c =
      (if c \<in> set (col # rest) then map_option (entry_of n) (map_of counts c) else map_of acc c)"
    using m(2) seen(2) by (auto simp: update_conv')
  ultimately show ?case by blast
qed

lemma std_ok:
  assumes "0 \<le> count s" and "0 \<le> m2 s"
  shows "\<exists>sd. std s = Inr sd"
proof (cases "count s \<le> 1")
  case True
  then show ?thesis by (simp add: std_def)
next
  case False
  then have pos: "0 < real_of_int (count s)" by simp
  then have "0 \<le> m2 s / real_of_int (count s)"
    using assms(2) by simp
  then have "\<not> m2 s / real_of_int (count s) < 0" by linarith
  then show ?thesis
    using False pos by (simp add: std_def py_div_def py_sqrt_def)
qed

lemma build_numeric_summary_ok:
  assumes "stats_ok items"
  shows "\<exists>n. build_numeric_summary items acc = Inr n"
  using assms
proof (induction items arbitrary: acc)
  case Nil
  show ?case by simp
next
  case (Cons p items)
  obtain col stat where p: "p = (col, stat)" by (cases p)
  from Cons.prems have good: "0 \<le> count stat" "0 \<le> m2 stat" and rest: "stats_ok items"
    by (simp_all add: stats_ok_def p)
  from std_ok[OF good] obtain sd where "std stat = Inr sd" by blast
  then show ?case
    using Cons.IH[OF rest] by (simp add: p)
qed

lemma build_numeric_summary_none:
  assumes "\<forall>p \<in> set items. count (snd p) = 0"
  shows "build_numeric_summary items acc = Inr acc"
  using assms by (induction items arbitrary: acc) auto

lemma summarize_duplicates_ok:
  "\<exists>d. summarize_duplicates columns kept = Inr d
       \<and> sample_rows d = int (length (concat kept))
       \<and> duplicate_rows d = int (length (filter (\<lambda>b. b) (duplicated columns (concat kept))))
       \<and> duplicate_rate d =
           (if concat kept = [] then 0
            else real_of_int (duplicate_rows d) / real_of_int (sample_rows d))"
proof (cases "kept = []")
  case True
  then show ?thesis by (simp add: summarize_duplicates_def duplicated_def)
next
  case False
  then show ?thesis
    by (simp add: summarize_duplicates_def Let_def py_div_def)
qed

lemma set_fold_update:
  "set (fold (\<lambda>k d. AList.update k (f k) d) ks d) \<subseteq> set d \<union> (\<lambda>k. (k, f k)) ` set ks"
proof (induction ks arbitrary: d)
  case Nil
  show ?case by simp
next
  case (Cons k ks)
  show ?case
    using Cons.IH[of "AList.update k (f k) d"] set_update_subset[of k "f k" d] by auto
qed

lemma keys_fold_update_set:
  "fst ` set (fold (\<lambda>k d. AList.update k (f k) d) ks d) = fst ` set d \<union> set ks"
  by (induction ks arbitrary: d) (auto simp: dom_update)

lemma dict_of_keys: "fst ` set (dict_of f ks) = set ks"
  by (simp add: dict_of_def keys_fold_update_set)

lemma dict_of_values: "p \<in> set (dict_of f ks) \<Longrightarrow> snd p = f (fst p)"
  using set_fold_update[of f ks "[]"] by (auto simp: dict_of_def)

lemma initial_scan_ok: "scan_ok columns (initial_scan columns)"
  by (auto simp: scan_ok_def initial_scan_def dict_of_keys stats_ok_def list_all_iff new_stat_def
      dest: dict_of_values)

lemma scan_frames_ok:
  "\<exists>st. scan_frames name columns chunks = Inr st
        \<and> scan_ok columns st
        \<and> row_count st = int (length (concat chunks))
        \<and> sample_inv DUPLICATE_SAMPLE_ROWS (concat chunks) (sample_frames st, sample_remaining st)"
proof -
  have inv: "sample_inv DUPLICATE_SAMPLE_ROWS []
               (sample_frames (initial_scan columns), sample_remaining (initial_scan columns))"
    by (simp add: sample_inv_def initial_scan_def)
  have cap: "0 \<le> DUPLICATE_SAMPLE_ROWS"
    by (simp add: DUPLICATE_SAMPLE_ROWS_def)
  show ?thesis
    using scan_chunks_ok[OF initial_scan_ok inv cap,
        where standard = "detect_standard_columns columns"
          and vr = "expect_vibration_range (vibration_col (detect_standard_columns columns))"
          and name = name and ics = "List.enumerate 0 chunks"]
    by (simp add: scan_frames_def Let_def initial_scan_def)
qed



lemma fst_credit: "fst (credit p note acc) = fst acc + p"
  by (simp add: credit_def)

lemma fst_depth_rule:
  "fst (depth_rule c r acc) = fst acc
     + (if truthy c \<and> r > 0.9 then 30 else if truthy c \<and> r > 0.7 then 15 else 0)"
  by (simp add: depth_rule_def fst_credit)

lemma fst_rop_rule:
  "fst (rop_rule c r acc) = fst acc
     + (if truthy c \<and> r > 0.7 then 20 else if truthy c \<and> r > 0.4 then 10 else 0)"
  by (simp add: rop_rule_def fst_credit)

lemma fst_vibration_rule:
  "fst (vibration_rule c r acc) = fst acc
     + (if truthy c \<and> r > 0.7 then 20 else if truthy c \<and> r > 0.4 then 10 else 0)"
  by (simp add: vibration_rule_def fst_credit)

lemma fst_time_rule:
  "fst (time_rule c r acc) = fst acc + (if truthy c \<and> r > 0.5 then 10 else 0)"
  by (simp add: time_rule_def fst_credit)

lemma fst_empty_rows_rule:
  "fst (empty_rows_rule pct acc) = fst acc + (if pct > 0.1 then - 10 else 0)"
  by (simp add: empty_rows_rule_def fst_credit)

lemma fst_negative_depth_rule:
  "fst (negative_depth_rule neg acc) = fst acc + (if neg > 0 then - 10 else 0)"
  by (simp add: negative_depth_rule_def fst_credit)

lemmas fst_rules = fst_depth_rule fst_rop_rule fst_vibration_rule fst_time_rule
  fst_empty_rows_rule fst_negative_depth_rule

text \<open>No rule takes more than 10 away or gives more than its best credit.\<close>

lemma score_rules_le_80: "fst (score_rules dc dr rc rr vc vr tc tr pct neg) \<le> 80"
proof -
  let ?a = "depth_rule dc dr (0, [])"
  let ?b = "rop_rule rc rr ?a"
  let ?c = "vibration_rule vc vr ?b"
  let ?d = "time_rule tc tr ?c"
  let ?e = "empty_rows_rule pct ?d"
  have "fst ?a \<le> 30"
    by (simp add: fst_depth_rule)
  moreover have "fst ?b \<le> fst ?a + 20"
    by (simp add: fst_rop_rule)
  moreover have "fst ?c \<le> fst ?b + 20"
    by (simp add: fst_vibration_rule)
  moreover have "fst ?d \<le> fst ?c + 10"
    by (simp add: fst_time_rule)
  moreover have "fst ?e \<le> fst ?d"
    by (simp add: fst_empty_rows_rule)
  moreover have "fst (negative_depth_rule neg ?e) \<le> fst ?e"
    by (simp add: fst_negative_depth_rule)
  ultimately show ?thesis
    unfolding score_rules_def by linarith
qed

lemma finish_unfold:
  assumes "build_missingness (row_count st) (missing_counts st) columns [] = Inr m"
    and "build_numeric_summary (numeric_stats st) [] = Inr n"
    and "summarize_duplicates columns (sample_frames st) = Inr d"
  shows "\<exists>h. finish name file_size columns st = Inr h
           \<and> rows h = row_count st
           \<and> header_columns h = columns
           \<and> missingness h = m
           \<and> numeric_summary h = n
           \<and> duplicate_info h = d
           \<and> fully_empty_count h = fully_empty_rows st
           \<and> fully_empty_row_pct h =
               (if row_count st = 0 then 0
                else real_of_int (fully_empty_rows st) / real_of_int (row_count st))
           \<and> standard_columns h = detect_standard_columns columns
           \<and> negative_count (depth h) = depth_negative st
           \<and> fit_score h =
               max 0 (min 100 (fst (score_rules
                 (depth_col (standard_columns h)) (rate_for (missingness h) (depth_col (standard_columns h)))
                 (rop_col (standard_columns h)) (rate_for (missingness h) (rop_col (standard_columns h)))
                 (vibration_col (standard_columns h)) (rate_for (missingness h) (vibration_col (standard_columns h)))
                 (time_col (standard_columns h)) (rate_for (missingness h) (time_col (standard_columns h)))
                 (fully_empty_row_pct h) (negative_count (depth h)))))"
  using assms by (simp add: finish_def Let_def py_div_def)


text \<open>
  \<open>analyze_dataset\<close> on a file that pandas can read: the loop and the finalization
  succeed, and the record is the one \<open>finish\<close> builds from the last state of the loop.
\<close>

lemma analyze_dataset_ok:
  assumes "fs name = Some f" and "content f = Some csv"
  shows "\<exists>lg st h m n d.
           analyze_dataset fs name = (lg, Inr h)
         \<and> scan_frames name (header csv) (frames csv) = Inr st
         \<and> finish name (st_size f) (header csv) st = Inr h
         \<and> scan_ok (header csv) st
         \<and> row_count st = int (length (concat (frames csv)))
         \<and> sample_inv DUPLICATE_SAMPLE_ROWS (concat (frames csv)) (sample_frames st, sample_remaining st)
         \<and> build_missingness (row_count st) (missing_counts st) (header csv) [] = Inr m
         \<and> (\<forall>c. map_of m c = (if c \<in> set (header csv)
                                then map_option (entry_of (row_count st)) (map_of (missing_counts st) c)
                                else None))
         \<and> build_numeric_summary (numeric_stats st) [] = Inr n
         \<and> summarize_duplicates (header csv) (sample_frames st) = Inr d"
proof -
  from scan_frames_ok[of name "header csv" "frames csv"] obtain st where
    st: "scan_frames name (header csv) (frames csv) = Inr st" "scan_ok (header csv) st"
      "row_count st = int (length (concat (frames csv)))"
      "sample_inv DUPLICATE_SAMPLE_ROWS (concat (frames csv)) (sample_frames st, sample_remaining st)"
    by blast
  from st(2) have keys: "set (header csv) \<subseteq> fst ` set (missing_counts st)"
    and ok: "stats_ok (numeric_stats st)"
    by (simp_all add: scan_ok_def)
  from build_missingness_ok[OF keys, of "row_count st" "[]"] obtain m where
    m: "build_missingness (row_count st) (missing_counts st) (header csv) [] = Inr m"
      "\<forall>c. map_of m c = (if c \<in> set (header csv)
                           then map_option (entry_of (row_count st)) (map_of (missing_counts st) c)
                           else None)"
    by auto
  from build_numeric_summary_ok[OF ok, of "[]"] obtain n where
    n: "build_numeric_summary (numeric_stats st) [] = Inr n"
    by blast
  from summarize_duplicates_ok[of "header csv" "sample_frames st"] obtain d where
    d: "summarize_duplicates (header csv) (sample_frames st) = Inr d"
    by blast
  from finish_unfold[OF m(1) n d, of name "st_size f"] obtain h where
    h: "finish name (st_size f) (header csv) st = Inr h"
    by blast
  have "\<exists>lg. analyze_dataset fs name = (lg, Inr h)"
    using assms st(1) h by (simp add: analyze_dataset_def Let_def)
  then show ?thesis
    using st h m n d by blast
qed

section \<open>The record of a readable dataset\<close>


lemma analysis_facts:
  assumes "fs name = Some f" and "content f = Some csv"
  shows "\<exists>lg st h.
           analyze_dataset fs name = (lg, Inr h)
         \<and> scan_frames name (header csv) (frames csv) = Inr st
         \<and> rows h = int (length (concat (frames csv)))
         \<and> header_columns h = header csv
         \<and> (\<forall>c. map_of (missingness h) c =
                 (if c \<in> set (header csv)
                  then map_option (entry_of (rows h)) (map_of (missing_counts st) c)
                  else None))
         \<and> set (header csv) \<subseteq> fst ` set (missing_counts st)
         \<and> build_numeric_summary (numeric_stats st) [] = Inr (numeric_summary h)
         \<and> summarize_duplicates (header csv) (sample_frames st) = Inr (duplicate_info h)
         \<and> sample_inv DUPLICATE_SAMPLE_ROWS (concat (frames csv)) (sample_frames st, sample_remaining st)
         \<and> fully_empty_count h = fully_empty_rows st
         \<and> fully_empty_row_pct h =
               (if rows h = 0 then 0 else real_of_int (fully_empty_count h) / real_of_int (rows h))
         \<and> standard_columns h = detect_standard_columns (header csv)
         \<and> negative_count (depth h) = depth_negative st
         \<and> fit_score h =
               max 0 (min 100 (fst (score_rules
                 (depth_col (standard_columns h)) (rate_for (missingness h) (depth_col (standard_columns h)))
                 (rop_col (standard_columns h)) (rate_for (missingness h) (rop_col (standard_columns h)))
                 (vibration_col (standard_columns h)) (rate_for (missingness h) (vibration_col (standard_columns h)))
                 (time_col (standard_columns h)) (rate_for (missingness h) (time_col (standard_columns h)))
                 (fully_empty_row_pct h) (negative_count (depth h)))))"
proof -
  from analyze_dataset_ok[of fs name f csv, OF assms] obtain lg st h m n d where
    a: "analyze_dataset fs name = (lg, Inr h)"
    and st: "scan_frames name (header csv) (frames csv) = Inr st"
    and fin: "finish name (st_size f) (header csv) st = Inr h"
    and ok: "scan_ok (header csv) st"
    and rc: "row_count st = int (length (concat (frames csv)))"
    and inv: "sample_inv DUPLICATE_SAMPLE_ROWS (concat (frames csv)) (sample_frames st, sample_remaining st)"
    and m: "build_missingness (row_count st) (missing_counts st) (header csv) [] = Inr m"
    and mm: "\<forall>c. map_of m c = (if c \<in> set (header csv)
                                then map_option (entry_of (row_count st)) (map_of (missing_counts st) c)
                                else None)"
    and n: "build_numeric_summary (numeric_stats st) [] = Inr n"
    and d: "summarize_duplicates (header csv) (sample_frames st) = Inr d"
    by blast
  from finish_unfold[OF m n d, of name "st_size f"] fin have h:
    "rows h = row_count st" "header_columns h = header csv" "missingness h = m"
    "numeric_summary h = n" "duplicate_info h = d" "fully_empty_count h = fully_empty_rows st"
    "fully_empty_row_pct h =
       (if row_count st = 0 then 0
        else real_of_int (fully_empty_rows st) / real_of_int (row_count st))"
    "standard_columns h = detect_standard_columns (header csv)"
    "negative_count (depth h) = depth_negative st"
    "fit_score h =
       max 0 (min 100 (fst (score_rules
         (depth_col (standard_columns h)) (rate_for (missingness h) (depth_col (standard_columns h)))
         (rop_col (standard_columns h)) (rate_for (missingness h) (rop_col (standard_columns h)))
         (vibration_col (standard_columns h)) (rate_for (missingness h) (vibration_col (standard_columns h)))
         (time_col (standard_columns h)) (rate_for (missingness h) (time_col (standard_columns h)))
         (fully_empty_row_pct h) (negative_count (depth h)))))"
    by auto
  have keys: "set (header csv) \<subseteq> fst ` set (missing_counts st)"
    using ok by (simp add: scan_ok_def)
  have pct: "fully_empty_row_pct h =
      (if rows h = 0 then 0 else real_of_int (fully_empty_count h) / real_of_int (rows h))"
    using h(1,6,7) by simp
  show ?thesis
    apply (rule exI[of _ lg], rule exI[of _ st], rule exI[of _ h])
    using a st rc h(1-6,8-10) mm n d inv keys pct by simp
qed


lemma score_rules_ge: "- 20 \<le> fst (score_rules dc dr rc rr vc vr tc tr pct neg)"
proof -
  let ?a = "depth_rule dc dr (0, [])"
  let ?b = "rop_rule rc rr ?a"
  let ?c = "vibration_rule vc vr ?b"
  let ?d = "time_rule tc tr ?c"
  let ?e = "empty_rows_rule pct ?d"
  have "0 \<le> fst ?a"
    by (simp add: fst_depth_rule)
  moreover have "fst ?a \<le> fst ?b"
    by (simp add: fst_rop_rule)
  moreover have "fst ?b \<le> fst ?c"
    by (simp add: fst_vibration_rule)
  moreover have "fst ?c \<le> fst ?d"
    by (simp add: fst_time_rule)
  moreover have "fst ?d - 10 \<le> fst ?e"
    by (simp add: fst_empty_rows_rule)
  moreover have "fst ?e - 10 \<le> fst (negative_depth_rule neg ?e)"
    by (simp add: fst_negative_depth_rule)
  ultimately show ?thesis
    unfolding score_rules_def by linarith
qed

text \<open>
  C2. For every dataset that pandas can read, \<open>analyze_dataset\<close> returns a record, and
  its \<open>fit_score\<close> is an integer between 0 and 100: the sum that the scoring rules make
  in their order, clamped to that interval afterwards.
\<close>

theorem fit_score_in_range:
  assumes "fs name = Some f" and "content f = Some csv"
  shows "\<exists>lg h. analyze_dataset fs name = (lg, Inr h)
           \<and> 0 \<le> fit_score h \<and> fit_score h \<le> 100
           \<and> fit_score h =
               max 0 (min 100 (fst (score_rules
                 (depth_col (standard_columns h)) (rate_for (missingness h) (depth_col (standard_columns h)))
                 (rop_col (standard_columns h)) (rate_for (missingness h) (rop_col (standard_columns h)))
                 (vibration_col (standard_columns h)) (rate_for (missingness h) (vibration_col (standard_columns h)))
                 (time_col (standard_columns h)) (rate_for (missingness h) (time_col (standard_columns h)))
                 (fully_empty_row_pct h) (negative_count (depth h)))))"
proof -
  from analysis_facts[of fs name f csv, OF assms] obtain lg h where
    a: "analyze_dataset fs name = (lg, Inr h)"
    and s: "fit_score h =
               max 0 (min 100 (fst (score_rules
                 (depth_col (standard_columns h)) (rate_for (missingness h) (depth_col (standard_columns h)))
                 (rop_col (standard_columns h)) (rate_for (missingness h) (rop_col (standard_columns h)))
                 (vibration_col (standard_columns h)) (rate_for (missingness h) (vibration_col (standard_columns h)))
                 (time_col (standard_columns h)) (rate_for (missingness h) (time_col (standard_columns h)))
                 (fully_empty_row_pct h) (negative_count (depth h)))))"
    by blast
  have "0 \<le> fit_score h" "fit_score h \<le> 100"
    unfolding s by simp_all
  with a s show ?thesis by blast
qed

theorem fit_score_in_range_witness:
  "\<exists>lg h. analyze_dataset example_fs ''volve_drilling_best.csv'' = (lg, Inr h)
     \<and> 0 \<le> fit_score h \<and> fit_score h \<le> 100"
proof -
  have "example_fs ''volve_drilling_best.csv'' = Some example_file"
    by (simp add: example_fs_def)
  moreover have "content example_file = Some example_csv"
    by (simp add: example_file_def)
  ultimately show ?thesis
    using fit_score_in_range [of example_fs "''volve_drilling_best.csv''" example_file example_csv]
    by (auto simp: example_csv_def)
qed

text \<open>
  C10. The fit score of every dataset is at most 80: the credits of the four field groups
  add up to at most 30 + 20 + 20 + 10, so the upper clamp at 100 never applies.
\<close>

theorem fit_score_at_most_80:
  assumes "fs name = Some f" and "content f = Some csv"
  shows "\<exists>lg h. analyze_dataset fs name = (lg, Inr h) \<and> fit_score h \<le> 80"
proof -
  from analysis_facts[of fs name f csv, OF assms] obtain lg h where
    a: "analyze_dataset fs name = (lg, Inr h)"
    and s: "fit_score h =
               max 0 (min 100 (fst (score_rules
                 (depth_col (standard_columns h)) (rate_for (missingness h) (depth_col (standard_columns h)))
                 (rop_col (standard_columns h)) (rate_for (missingness h) (rop_col (standard_columns h)))
                 (vibration_col (standard_columns h)) (rate_for (missingness h) (vibration_col (standard_columns h)))
                 (time_col (standard_columns h)) (rate_for (missingness h) (time_col (standard_columns h)))
                 (fully_empty_row_pct h) (negative_count (depth h)))))"
    by blast
  have "fit_score h \<le> 80"
    unfolding s
    using score_rules_le_80[of "depth_col (standard_columns h)"
        "rate_for (missingness h) (depth_col (standard_columns h))"
        "rop_col (standard_columns h)" "rate_for (missingness h) (rop_col (standard_columns h))"
        "vibration_col (standard_columns h)" "rate_for (missingness h) (vibration_col (standard_columns h))"
        "time_col (standard_columns h)" "rate_for (missingness h) (time_col (standard_columns h))"
        "fully_empty_row_pct h" "negative_count (depth h)"]
    by simp
  with a show ?thesis by blast
qed

theorem fit_score_at_most_80_witness:
  "\<exists>lg h. analyze_dataset example_fs ''volve_drilling_best.csv'' = (lg, Inr h) \<and> fit_score h \<le> 80"
proof -
  have "example_fs ''volve_drilling_best.csv'' = Some example_file"
    by (simp add: example_fs_def)
  moreover have "content example_file = Some example_csv"
    by (simp add: example_file_def)
  ultimately show ?thesis
    using fit_score_at_most_80 [of example_fs "''volve_drilling_best.csv''" example_file example_csv]
    by (auto simp: example_csv_def)
qed

lemma entry_of_rates:
  "n \<noteq> 0 \<Longrightarrow> missing_rate (entry_of n seen) + non_null_rate (entry_of n seen) = 1"
  "missing_rate (entry_of 0 seen) = 0"
  "non_null_rate (entry_of 0 seen) = 0"
  by (simp_all add: entry_of_def field_simps)

text \<open>
  C7. For every analyzed dataset and every column of its header, the record has a
  missingness entry; its missing rate and its non-null rate add up to 1 when the dataset
  has rows, and both are 0 when it has none. The rates are exact quotients here.
\<close>

theorem missingness_rates_complementary:
  assumes "fs name = Some f" and "content f = Some csv"
  shows "\<exists>lg h. analyze_dataset fs name = (lg, Inr h)
           \<and> header_columns h = header csv
           \<and> (\<forall>col \<in> set (header csv).
                 \<exists>e. map_of (missingness h) col = Some e
                    \<and> (rows h > 0 \<longrightarrow> missing_rate e + non_null_rate e = 1)
                    \<and> (rows h = 0 \<longrightarrow> missing_rate e = 0 \<and> non_null_rate e = 0))"
proof -
  from analysis_facts[of fs name f csv, OF assms] obtain lg and st :: scan and h where
    a: "analyze_dataset fs name = (lg, Inr h)"
    and hc: "header_columns h = header csv"
    and m: "\<forall>c. map_of (missingness h) c =
                 (if c \<in> set (header csv)
                  then map_option (entry_of (rows h)) (map_of (missing_counts st) c)
                  else None)"
    and keys: "set (header csv) \<subseteq> fst ` set (missing_counts st)"
    by blast
  have "\<exists>e. map_of (missingness h) col = Some e
           \<and> (rows h > 0 \<longrightarrow> missing_rate e + non_null_rate e = 1)
           \<and> (rows h = 0 \<longrightarrow> missing_rate e = 0 \<and> non_null_rate e = 0)"
    if col: "col \<in> set (header csv)" for col
  proof -
    from col keys obtain seen where "map_of (missing_counts st) col = Some seen"
      using getitem_present[of col "missing_counts st"] by blast
    with m col have "map_of (missingness h) col = Some (entry_of (rows h) seen)"
      by simp
    then show ?thesis
      using entry_of_rates(1)[of "rows h" seen] entry_of_rates(2,3)[of seen] by auto
  qed
  with a hc show ?thesis by blast
qed

theorem missingness_rates_complementary_witness:
  "\<exists>lg h. analyze_dataset example_fs ''volve_drilling_best.csv'' = (lg, Inr h)
     \<and> (\<exists>e. map_of (missingness h) ''TIME_ROP_VIBRATION_DEPTH'' = Some e
            \<and> (rows h > 0 \<longrightarrow> missing_rate e + non_null_rate e = 1)
            \<and> (rows h = 0 \<longrightarrow> missing_rate e = 0 \<and> non_null_rate e = 0))"
proof -
  have "example_fs ''volve_drilling_best.csv'' = Some example_file"
    by (simp add: example_fs_def)
  moreover have "content example_file = Some example_csv"
    by (simp add: example_file_def)
  ultimately show ?thesis
    using missingness_rates_complementary [of example_fs "''volve_drilling_best.csv''" example_file example_csv]
    by (auto simp: example_csv_def)
qed

section \<open>Full coverage\<close>







lemma rate_for_present:
  "c \<noteq> [] \<Longrightarrow> map_of m c = Some e \<Longrightarrow> rate_for m (Some c) = non_null_rate e"
  by (simp add: rate_for_def)






section \<open>A dataset without rows\<close>


lemma update_columns_empty:
  assumes "set cs \<subseteq> fst ` set (missing_counts st)"
    and "set cs \<subseteq> fst ` set (numeric_stats st)"
  shows "update_columns [] cs st = Inr st"
  using assms
proof (induction cs)
  case Nil
  show ?case by simp
next
  case (Cons col rest)
  from Cons.prems(1) obtain seen where
    seen: "getitem (missing_counts st) col = Inr seen" "map_of (missing_counts st) col = Some seen"
    using getitem_present[of col "missing_counts st"] by auto
  from Cons.prems(2) obtain stat where
    stat: "getitem (numeric_stats st) col = Inr stat" "map_of (numeric_stats st) col = Some stat"
    using getitem_present[of col "numeric_stats st"] by auto
  have "update_columns [] rest st = Inr st"
    using Cons by simp
  then show ?case
    using seen stat
    by (simp add: column_of_def isna_sum_def update_empty update_triv)
qed

lemma count_where_Nil: "count_where p (to_numeric (column_of [] c)) = 0"
  by (simp add: count_where_def to_numeric_def column_of_def)

lemma process_chunk_empty:
  assumes "scan_ok columns st"
  shows "\<exists>st'. process_chunk columns standard vr name (i, []) st = Inr st'
           \<and> scan_ok columns st'
           \<and> row_count st' = row_count st
           \<and> fully_empty_rows st' = fully_empty_rows st
           \<and> depth_negative st' = depth_negative st
           \<and> missing_counts st' = missing_counts st
           \<and> numeric_stats st' = numeric_stats st"
proof -
  have keys: "set columns \<subseteq> fst ` set (missing_counts st)"
    "set columns \<subseteq> fst ` set (numeric_stats st)"
    using assms by (simp_all add: scan_ok_def)
  have same: "st\<lparr> row_count := row_count st, fully_empty_rows := fully_empty_rows st \<rparr> = st"
    by simp
  have neg: "depth_negative (count_negative_depth columns standard [] st) = depth_negative st"
    by (simp add: count_negative_depth_def count_where_Nil split: option.splits)
  have oor: "depth_negative (count_out_of_range columns standard vr [] s) = depth_negative s" for s
    by simp
  have fs: "depth_negative (feed_sample [] s) = depth_negative s" for s
    by simp
  have run: "process_chunk columns standard vr name (i, []) st =
      Inr (heartbeat i name (feed_sample []
            (count_out_of_range columns standard vr []
              (count_negative_depth columns standard [] st))))"
    using update_columns_empty[OF keys]
    by (simp add: process_chunk_def Let_def all_na_rows_def same)
  show ?thesis
    unfolding run using assms neg by (simp add: scan_ok_def)
qed

lemma scan_chunks_empty:
  assumes "scan_ok columns st" and "\<forall>ic \<in> set ics. snd ic = []"
  shows "\<exists>st'. scan_chunks columns standard vr name ics st = Inr st'
           \<and> fully_empty_rows st' = fully_empty_rows st
           \<and> depth_negative st' = depth_negative st
           \<and> missing_counts st' = missing_counts st
           \<and> numeric_stats st' = numeric_stats st"
  using assms
proof (induction ics arbitrary: st)
  case Nil
  show ?case by simp
next
  case (Cons ic rest)
  obtain i where ic: "ic = (i, [])"
    using Cons.prems(2) by (cases ic) auto
  from process_chunk_empty[OF Cons.prems(1), of standard vr name i] obtain st1 where
    r: "process_chunk columns standard vr name (i, []) st = Inr st1"
    and ok: "scan_ok columns st1"
    and same: "fully_empty_rows st1 = fully_empty_rows st" "depth_negative st1 = depth_negative st"
      "missing_counts st1 = missing_counts st" "numeric_stats st1 = numeric_stats st"
    by blast
  from Cons.prems(2) have "\<forall>ic \<in> set rest. snd ic = []" by simp
  from Cons.IH[OF ok this] show ?case
    using r same by (simp add: ic)
qed

lemma scan_frames_empty:
  assumes "\<forall>chunk \<in> set chunks. chunk = []"
  shows "\<exists>st. scan_frames name columns chunks = Inr st
           \<and> fully_empty_rows st = 0
           \<and> depth_negative st = 0
           \<and> (\<forall>p \<in> set (numeric_stats st). count (snd p) = 0)"
proof -
  have e: "\<forall>ic \<in> set (List.enumerate 0 chunks). snd ic = []"
    using assms by (auto simp: in_set_enumerate_eq)
  have z: "\<forall>p \<in> set (numeric_stats (initial_scan columns)). count (snd p) = 0"
    by (auto simp: initial_scan_def new_stat_def dest: dict_of_values)
  from scan_chunks_empty[OF initial_scan_ok[of columns] e,
      where standard = "detect_standard_columns columns"
        and vr = "expect_vibration_range (vibration_col (detect_standard_columns columns))"
        and name = name]
  show ?thesis
    using z by (auto simp: scan_frames_def Let_def initial_scan_def)
qed

lemma rate_for_zero:
  assumes "\<forall>c. map_of m c = (if c \<in> set cs then map_option (entry_of 0) (map_of counts c) else None)"
  shows "rate_for m col = 0"
proof (cases col)
  case None
  then show ?thesis by (simp add: rate_for_def)
next
  case (Some c)
  show ?thesis
  proof (cases "map_of m c")
    case None
    then show ?thesis using Some by (simp add: rate_for_def)
  next
    case (Some e)
    with assms obtain seen where "e = entry_of 0 seen"
      by (auto split: if_splits)
    then show ?thesis
      using Some \<open>col = Some c\<close> by (simp add: rate_for_def entry_of_def)
  qed
qed

text \<open>
  C9. A dataset with a header and no data rows is analyzed without any exception, a
  division by zero included: the record has 0 rows, rates 0 in the missingness entry of
  every column, an empty numeric summary, a fully-empty-row rate of 0, a duplicate rate
  of 0 and a fit score of 0.
\<close>

theorem empty_dataset_record:
  assumes "fs name = Some f" and "content f = Some csv"
    and "\<forall>chunk \<in> set (frames csv). chunk = []"
  shows "\<exists>lg h. analyze_dataset fs name = (lg, Inr h)
           \<and> rows h = 0
           \<and> (\<forall>col \<in> set (header csv).
                 \<exists>e. map_of (missingness h) col = Some e
                    \<and> missing_rate e = 0 \<and> non_null_rate e = 0)
           \<and> numeric_summary h = []
           \<and> fully_empty_row_pct h = 0
           \<and> duplicate_rate (duplicate_info h) = 0
           \<and> fit_score h = 0"
proof -
  have none: "concat (frames csv) = []"
    using assms(3) by simp
  from analysis_facts[of fs name f csv, OF assms(1,2)]
  obtain lg and st :: scan and h where
    a: "analyze_dataset fs name = (lg, Inr h)"
    and st: "scan_frames name (header csv) (frames csv) = Inr st"
    and rows: "rows h = int (length (concat (frames csv)))"
    and m: "\<forall>c. map_of (missingness h) c =
                 (if c \<in> set (header csv)
                  then map_option (entry_of (rows h)) (map_of (missing_counts st) c)
                  else None)"
    and keys: "set (header csv) \<subseteq> fst ` set (missing_counts st)"
    and n: "build_numeric_summary (numeric_stats st) [] = Inr (numeric_summary h)"
    and d: "summarize_duplicates (header csv) (sample_frames st) = Inr (duplicate_info h)"
    and inv: "sample_inv DUPLICATE_SAMPLE_ROWS (concat (frames csv)) (sample_frames st, sample_remaining st)"
    and pct: "fully_empty_row_pct h =
               (if rows h = 0 then 0 else real_of_int (fully_empty_count h) / real_of_int (rows h))"
    and neg: "negative_count (depth h) = depth_negative st"
    and s: "fit_score h =
               max 0 (min 100 (fst (score_rules
                 (depth_col (standard_columns h)) (rate_for (missingness h) (depth_col (standard_columns h)))
                 (rop_col (standard_columns h)) (rate_for (missingness h) (rop_col (standard_columns h)))
                 (vibration_col (standard_columns h)) (rate_for (missingness h) (vibration_col (standard_columns h)))
                 (time_col (standard_columns h)) (rate_for (missingness h) (time_col (standard_columns h)))
                 (fully_empty_row_pct h) (negative_count (depth h)))))"
    by blast
  from scan_frames_empty[OF assms(3), of name "header csv"] st have
    zero: "depth_negative st = 0" and counts: "\<forall>p \<in> set (numeric_stats st). count (snd p) = 0"
    by auto
  have r0: "rows h = 0"
    using rows none by simp
  have m0: "\<forall>c. map_of (missingness h) c =
                 (if c \<in> set (header csv)
                  then map_option (entry_of 0) (map_of (missing_counts st) c)
                  else None)"
    using m r0 by simp
  have entries: "\<exists>e. map_of (missingness h) col = Some e \<and> missing_rate e = 0 \<and> non_null_rate e = 0"
    if col: "col \<in> set (header csv)" for col
  proof -
    from col keys obtain seen where "map_of (missing_counts st) col = Some seen"
      using getitem_present[of col "missing_counts st"] by blast
    with m0 col have "map_of (missingness h) col = Some (entry_of 0 seen)"
      by simp
    then show ?thesis
      by (simp add: entry_of_rates(2,3))
  qed
  have summary: "numeric_summary h = []"
    using n build_numeric_summary_none[OF counts, of "[]"] by simp
  have p0: "fully_empty_row_pct h = 0"
    using pct r0 by simp
  have kept: "concat (sample_frames st) = []"
    using inv none by (simp add: sample_inv_def)
  from summarize_duplicates_ok[of "header csv" "sample_frames st"] d kept
  have dup: "duplicate_rate (duplicate_info h) = 0"
    by auto
  have score: "fit_score h = 0"
    unfolding s p0 neg zero rate_for_zero[OF m0]
    by (simp add: score_rules_def fst_rules)
  show ?thesis
    using a r0 entries summary p0 dup score by blast
qed

theorem empty_dataset_record_witness:
  "\<exists>lg h. analyze_dataset empty_fs ''volve_drilling_ares1_ready.csv'' = (lg, Inr h)
     \<and> rows h = 0
     \<and> (\<forall>col \<in> set [''DEPTH'', ''ROP''].
           \<exists>e. map_of (missingness h) col = Some e
              \<and> missing_rate e = 0 \<and> non_null_rate e = 0)
     \<and> numeric_summary h = []
     \<and> fully_empty_row_pct h = 0
     \<and> duplicate_rate (duplicate_info h) = 0
     \<and> fit_score h = 0"
proof -
  have "empty_fs ''volve_drilling_ares1_ready.csv'' = Some empty_file"
    by (simp add: empty_fs_def)
  moreover have "content empty_file = Some empty_csv"
    by (simp add: empty_file_def)
  moreover have "\<forall>chunk \<in> set (frames empty_csv). chunk = []"
    by (simp add: empty_csv_def)
  moreover have "header empty_csv = [''DEPTH'', ''ROP'']"
    by (simp add: empty_csv_def)
  ultimately show ?thesis
    using empty_dataset_record
      [of empty_fs "''volve_drilling_ares1_ready.csv''" empty_file empty_csv]
    by simp
qed

section \<open>The duplicate sample\<close>


lemma marked_index_set:
  "{i. i < Suc (length rs) \<and> ((r # rs) ! i \<in> set seen \<or> (\<exists>j<i. (r # rs) ! j = (r # rs) ! i))}
     = (if r \<in> set seen then {0} else {})
       \<union> Suc ` {k. k < length rs \<and> (rs ! k \<in> set (r # seen) \<or> (\<exists>j<k. rs ! j = rs ! k))}"
  (is "?L = ?A \<union> Suc ` ?S")
proof (rule set_eqI)
  fix i
  show "i \<in> ?L \<longleftrightarrow> i \<in> ?A \<union> Suc ` ?S"
  proof (cases i)
    case 0
    then show ?thesis by auto
  next
    case (Suc k)
    have ex: "(\<exists>j<Suc k. (r # rs) ! j = rs ! k) \<longleftrightarrow> r = rs ! k \<or> (\<exists>j<k. rs ! j = rs ! k)"
      by (auto simp: less_Suc_eq_0_disj)
    have "i \<in> ?L \<longleftrightarrow> k < length rs \<and> (rs ! k \<in> set seen \<or> r = rs ! k \<or> (\<exists>j<k. rs ! j = rs ! k))"
      using Suc ex by simp
    also have "\<dots> \<longleftrightarrow> k \<in> ?S"
      by auto
    also have "\<dots> \<longleftrightarrow> i \<in> ?A \<union> Suc ` ?S"
      using Suc by auto
    finally show ?thesis .
  qed
qed

lemma duplicated_from_count:
  "length (filter (\<lambda>b. b) (duplicated_from seen rs))
     = card {i. i < length rs \<and> (rs ! i \<in> set seen \<or> (\<exists>j<i. rs ! j = rs ! i))}"
proof (induction rs arbitrary: seen)
  case Nil
  show ?case by simp
next
  case (Cons r rs)
  let ?S = "{k. k < length rs \<and> (rs ! k \<in> set (r # seen) \<or> (\<exists>j<k. rs ! j = rs ! k))}"
  let ?A = "if r \<in> set seen then {0::nat} else {}"
  have fin: "finite ?S" by simp
  have "card (?A \<union> Suc ` ?S) = card ?A + card (Suc ` ?S)"
    by (rule card_Un_disjoint) (use fin in auto)
  also have "card (Suc ` ?S) = card ?S"
    by (rule card_image) simp
  finally have "card (?A \<union> Suc ` ?S) = (if r \<in> set seen then 1 else 0) + card ?S"
    by simp
  then show ?case
    using Cons.IH[of "r # seen"] marked_index_set[of rs r seen] by simp
qed

lemma duplicated_count:
  "length (filter (\<lambda>b. b) (duplicated columns kept)) = card (repeats columns kept)"
proof -
  have "{i. i < length kept \<and> (\<exists>j<i. map (kept ! j) columns = map (kept ! i) columns)}
      = {i. i < length (map (\<lambda>r. map r columns) kept)
            \<and> (map (\<lambda>r. map r columns) kept ! i \<in> set []
               \<or> (\<exists>j<i. map (\<lambda>r. map r columns) kept ! j = map (\<lambda>r. map r columns) kept ! i))}"
    by auto
  then show ?thesis
    unfolding duplicated_def repeats_def duplicated_from_count by simp
qed

lemma finish_ok:
  assumes "scan_ok columns st"
  shows "\<exists>h d. finish name file_size columns st = Inr h
           \<and> summarize_duplicates columns (sample_frames st) = Inr d
           \<and> duplicate_info h = d"
proof -
  from assms have keys: "set columns \<subseteq> fst ` set (missing_counts st)"
    and ok: "stats_ok (numeric_stats st)"
    by (simp_all add: scan_ok_def)
  from build_missingness_ok[OF keys, of "row_count st" "[]"] obtain m where
    m: "build_missingness (row_count st) (missing_counts st) columns [] = Inr m"
    by auto
  from build_numeric_summary_ok[OF ok, of "[]"] obtain n where
    n: "build_numeric_summary (numeric_stats st) [] = Inr n"
    by blast
  from summarize_duplicates_ok[of columns "sample_frames st"] obtain d where
    d: "summarize_duplicates columns (sample_frames st) = Inr d"
    by blast
  from finish_unfold[OF m n d, of name file_size] d show ?thesis
    by auto
qed

text \<open>
  C6. Whatever chunks have been fed so far, in order, the loop has not raised and the
  frames it kept hold exactly the first min(200000, rows seen) rows in arrival order,
  never more than 200000. At finalization \<open>sample_rows\<close> is the number of kept rows,
  \<open>duplicate_rows\<close> the number of kept rows that repeat an earlier kept row, and
  \<open>duplicate_rate\<close> their quotient, 0 when no row was kept; this is the
  \<open>duplicate_sample\<close> entry of the record.
\<close>

theorem duplicate_sample_first_rows:
  "\<exists>st d.
      scan_frames name columns chunks = Inr st
    \<and> concat (sample_frames st) = first_rows 200000 chunks
    \<and> length (first_rows 200000 chunks) = min 200000 (length (concat chunks))
    \<and> length (concat (sample_frames st)) \<le> 200000
    \<and> summarize_duplicates columns (sample_frames st) = Inr d
    \<and> (\<forall>file_size. \<exists>h. finish name file_size columns st = Inr h \<and> duplicate_info h = d)
    \<and> sample_rows d = int (length (first_rows 200000 chunks))
    \<and> duplicate_rows d = int (card (repeats columns (first_rows 200000 chunks)))
    \<and> duplicate_rate d =
        (if first_rows 200000 chunks = [] then 0
         else real (card (repeats columns (first_rows 200000 chunks)))
              / real (length (first_rows 200000 chunks)))"
proof -
  from scan_frames_ok[of name columns chunks] obtain st where
    st: "scan_frames name columns chunks = Inr st"
    and ok: "scan_ok columns st"
    and inv: "sample_inv DUPLICATE_SAMPLE_ROWS (concat chunks) (sample_frames st, sample_remaining st)"
    by blast
  have kept: "concat (sample_frames st) = first_rows 200000 chunks"
    using inv by (simp add: sample_inv_def first_rows_def DUPLICATE_SAMPLE_ROWS_def)
  have len: "length (first_rows 200000 chunks) = min 200000 (length (concat chunks))"
    by (simp add: first_rows_def min.commute)
  from summarize_duplicates_ok[of columns "sample_frames st"] obtain d where
    d: "summarize_duplicates columns (sample_frames st) = Inr d"
    and d1: "sample_rows d = int (length (concat (sample_frames st)))"
    and d2: "duplicate_rows d
               = int (length (filter (\<lambda>b. b) (duplicated columns (concat (sample_frames st)))))"
    and d3: "duplicate_rate d =
           (if concat (sample_frames st) = [] then 0
            else real_of_int (duplicate_rows d) / real_of_int (sample_rows d))"
    by blast
  have fin: "\<forall>file_size. \<exists>h. finish name file_size columns st = Inr h \<and> duplicate_info h = d"
    using finish_ok[OF ok, of name] d by auto
  have r1: "sample_rows d = int (length (first_rows 200000 chunks))"
    using d1 kept by simp
  have r2: "duplicate_rows d = int (card (repeats columns (first_rows 200000 chunks)))"
    using d2 kept by (simp add: duplicated_count)
  have r3: "duplicate_rate d =
        (if first_rows 200000 chunks = [] then 0
         else real (card (repeats columns (first_rows 200000 chunks)))
              / real (length (first_rows 200000 chunks)))"
    using d3 kept r1 r2 by simp
  have le: "length (concat (sample_frames st)) \<le> 200000"
    unfolding kept len by simp
  show ?thesis
    using st kept len le d fin r1 r2 r3 by blast
qed

theorem duplicate_sample_first_rows_witness:
  "\<exists>st. scan_frames ''volve_drilling_best.csv'' [''DEPTH''] [replicate 200001 example_row] = Inr st
     \<and> concat (sample_frames st) = replicate 200000 example_row"
  using duplicate_sample_first_rows
    [of "''volve_drilling_best.csv''" "[''DEPTH'']" "[replicate 200001 example_row]"]
  by (auto simp: first_rows_def)

section \<open>Missing and unreadable datasets\<close>












end
